theory Spec2Isabelle
  imports Main "HOL-Library.AList"
begin

section \<open>Domain model (package agent, types)\<close>

text \<open>
  A \<open>time.Time\<close> is modelled by the instant it denotes, counted in nanoseconds from the
  zero time, so that \<open>IsZero\<close> is equality with 0 and \<open>After\<close> is \<open>>\<close>.
  A \<open>time.Duration\<close> is a signed 64-bit count of nanoseconds; \<open>Time.Sub\<close> saturates
  at its bounds. Every store operation reads the clock; the model hands the reading in
  as the argument \<open>now\<close>, one reading per operation.
\<close>

type_synonym time = int
type_synonym duration = int

definition minDuration :: duration where
  "minDuration = - (2 ^ 63)"

definition maxDuration :: duration where
  "maxDuration = 2 ^ 63 - 1"

definition Minute :: duration where
  "Minute = 60 * 1000000000"

definition Hour :: duration where
  "Hour = 60 * Minute"

definition Sub :: "time \<Rightarrow> time \<Rightarrow> duration" where
  "Sub t u = (let d = t - u in
     if d < minDuration then minDuration
     else if maxDuration < d then maxDuration
     else d)"

text \<open>\<open>time.Since(t)\<close> is \<open>time.Now().Sub(t)\<close>.\<close>

definition Since :: "time \<Rightarrow> time \<Rightarrow> duration" where
  "Since now t = Sub now t"

definition DefaultClaimExpiry :: duration where
  "DefaultClaimExpiry = 30 * Minute"

definition DefaultInactivityThreshold :: duration where
  "DefaultInactivityThreshold = 30 * Minute"

definition DefaultStaleThreshold :: duration where
  "DefaultStaleThreshold = 1 * Hour"

definition DefaultFileHintExpiry :: duration where
  "DefaultFileHintExpiry = 30 * Minute"

text \<open>
  A Go slice held in a struct field is either \<open>nil\<close> or a sequence of elements; the
  code tests \<open>== nil\<close>, so the model keeps the difference: \<open>None\<close> is the nil slice,
  \<open>Some []\<close> the empty one. \<open>range\<close> over either runs no iteration, and \<open>append\<close>
  to either gives a slice that is not nil.
\<close>

type_synonym 'a slice = "'a list option"

definition elems :: "'a slice \<Rightarrow> 'a list" where
  "elems s = (case s of None \<Rightarrow> [] | Some xs \<Rightarrow> xs)"

definition append_slice :: "'a slice \<Rightarrow> 'a \<Rightarrow> 'a slice" where
  "append_slice s x = Some (elems s @ [x])"

text \<open>
  The loop \<open>var out []T; for _, x := range s { if p(x) { out = append(out, x) } }\<close>,
  which the store uses for every removal: the result stays nil when nothing is kept.
\<close>

definition keep :: "('a \<Rightarrow> bool) \<Rightarrow> 'a slice \<Rightarrow> 'a slice" where
  "keep p s = fold (\<lambda>x out. if p x then append_slice out x else out) (elems s) None"

text \<open>\<open>AgentStatus\<close> and \<open>ClaimReason\<close> are string types with named constants.\<close>

type_synonym agent_status = string
type_synonym claim_reason = string

definition AgentStatusActive :: agent_status where
  "AgentStatusActive = ''active''"

definition AgentStatusIdle :: agent_status where
  "AgentStatusIdle = ''idle''"

definition AgentStatusInactive :: agent_status where
  "AgentStatusInactive = ''inactive''"

definition AgentStatusGone :: agent_status where
  "AgentStatusGone = ''gone''"

definition AgentStatus_IsValid :: "agent_status \<Rightarrow> bool" where
  "AgentStatus_IsValid s \<longleftrightarrow>
     s = AgentStatusActive \<or> s = AgentStatusIdle \<or> s = AgentStatusInactive \<or> s = AgentStatusGone"

definition ClaimReasonImplementing :: claim_reason where
  "ClaimReasonImplementing = ''implementing''"

definition ClaimReasonReviewing :: claim_reason where
  "ClaimReasonReviewing = ''reviewing''"

definition ClaimReasonTesting :: claim_reason where
  "ClaimReasonTesting = ''testing''"

definition ClaimReasonDebugging :: claim_reason where
  "ClaimReasonDebugging = ''debugging''"

definition ClaimReasonPlanning :: claim_reason where
  "ClaimReasonPlanning = ''planning''"

definition ClaimReason_IsValid :: "claim_reason \<Rightarrow> bool" where
  "ClaimReason_IsValid r \<longleftrightarrow>
     r = ClaimReasonImplementing \<or> r = ClaimReasonReviewing \<or> r = ClaimReasonTesting \<or>
     r = ClaimReasonDebugging \<or> r = ClaimReasonPlanning"

record WorkClaim =
  BeadID :: string
  Agent :: string
  ClaimedAt :: time
  ExpiresAt :: time
  Reason :: claim_reason
  Notes :: string

record FileHint =
  Pattern :: string
  HintAgent :: string
  HintBeadID :: string
  CreatedAt :: time
  HintExpiresAt :: time

record AgentMeta =
  Version :: string
  SessionID :: string
  Tags :: "string list"

record AgentRegistration =
  Name :: string
  Model :: string
  Program :: string
  StartedAt :: time
  LastSeen :: time
  ClaimedWork :: "WorkClaim slice"
  FileHints :: "FileHint slice"
  Status :: agent_status
  Metadata :: AgentMeta

record FileConflict =
  File :: string
  Agents :: "string list"
  BeadIDs :: "string list"
  Resolution :: string

text \<open>
  Every error of the store is a formatted message; the constructors are the messages,
  with their arguments. The validation messages are \<open>ValidationError\<close>, the two
  not-found messages are \<open>AgentNotFound\<close> and \<open>ClaimNotFound\<close>, the message
  \<open>bead b already claimed by h\<close> is \<open>ConflictError b h\<close>, \<open>parsing agent at line n\<close>
  is \<open>ParseError n\<close>, \<open>reading agents file\<close> is \<open>ReadError\<close> and
  \<open>encoding agent\<close> is \<open>EncodeError\<close>.
\<close>

datatype error =
    ValidationError string
  | AgentNotFound string
  | ClaimNotFound string
  | ConflictError string string
  | ParseError nat
  | ReadError
  | EncodeError string

definition WorkClaim_IsExpired :: "WorkClaim \<Rightarrow> time \<Rightarrow> bool" where
  "WorkClaim_IsExpired c now \<longleftrightarrow> ExpiresAt c < now"

definition FileHint_IsExpired :: "FileHint \<Rightarrow> time \<Rightarrow> bool" where
  "FileHint_IsExpired f now \<longleftrightarrow> HintExpiresAt f < now"

definition WorkClaim_Validate :: "WorkClaim \<Rightarrow> error option" where
  "WorkClaim_Validate c =
     (if BeadID c = [] then Some (ValidationError ''bead ID cannot be empty'')
      else if Agent c = [] then Some (ValidationError ''agent name cannot be empty'')
      else if ClaimedAt c = 0 then Some (ValidationError ''claimed_at cannot be zero'')
      else if ExpiresAt c = 0 then Some (ValidationError ''expires_at cannot be zero'')
      else if \<not> ClaimReason_IsValid (Reason c) then Some (ValidationError ''invalid claim reason'')
      else None)"

definition AgentRegistration_Validate :: "AgentRegistration \<Rightarrow> error option" where
  "AgentRegistration_Validate a =
     (if Name a = [] then Some (ValidationError ''agent name cannot be empty'')
      else if Program a = [] then Some (ValidationError ''agent program cannot be empty'')
      else if \<not> AgentStatus_IsValid (Status a) then Some (ValidationError ''invalid agent status'')
      else None)"

definition IsActive :: "AgentRegistration \<Rightarrow> time \<Rightarrow> duration \<Rightarrow> bool" where
  "IsActive a now timeout \<longleftrightarrow> Since now (LastSeen a) < timeout"

definition IsStale :: "AgentRegistration \<Rightarrow> time \<Rightarrow> duration \<Rightarrow> bool" where
  "IsStale a now threshold \<longleftrightarrow> threshold < Since now (LastSeen a)"

definition HasClaim :: "AgentRegistration \<Rightarrow> string \<Rightarrow> bool" where
  "HasClaim a b \<longleftrightarrow> (\<exists>c \<in> set (elems (ClaimedWork a)). BeadID c = b)"

definition ActiveClaims :: "AgentRegistration \<Rightarrow> time \<Rightarrow> WorkClaim slice" where
  "ActiveClaims a now = keep (\<lambda>c. \<not> WorkClaim_IsExpired c now) (ClaimedWork a)"

definition NewAgentRegistration :: "time \<Rightarrow> string \<Rightarrow> string \<Rightarrow> string \<Rightarrow> AgentRegistration" where
  "NewAgentRegistration now name model program =
     \<lparr>Name = name, Model = model, Program = program, StartedAt = now, LastSeen = now,
      ClaimedWork = Some [], FileHints = Some [], Status = AgentStatusActive,
      Metadata = \<lparr>Version = [], SessionID = [], Tags = []\<rparr>\<rparr>"

definition NewWorkClaim :: "time \<Rightarrow> string \<Rightarrow> string \<Rightarrow> claim_reason \<Rightarrow> WorkClaim" where
  "NewWorkClaim now beadID agent reason =
     \<lparr>BeadID = beadID, Agent = agent, ClaimedAt = now, ExpiresAt = now + DefaultClaimExpiry,
      Reason = reason, Notes = []\<rparr>"

definition NewFileHint :: "time \<Rightarrow> string \<Rightarrow> string \<Rightarrow> string \<Rightarrow> FileHint" where
  "NewFileHint now pattern agent beadID =
     \<lparr>Pattern = pattern, HintAgent = agent, HintBeadID = beadID, CreatedAt = now,
      HintExpiresAt = now + DefaultFileHintExpiry\<rparr>"

section \<open>The coordination store (package agent, store)\<close>

text \<open>
  The registry \<open>map[string]*AgentRegistration\<close> is an association list: \<open>map_of\<close> is the
  lookup, \<open>AList.update\<close> the assignment \<open>s.agents[k] = v\<close>, \<open>AList.delete\<close> the
  \<open>delete\<close>. Go leaves the iteration order of a map open; here it is the order of the
  list, and a statement about every list is a statement about every order. The registry
  is the whole state of the store that the operations below read or write; each
  mutating operation returns its error (if any) and the registry it leaves behind.
  Registrations are values here: this part of the model is about callers that reach the
  registry through the store's operations only (the section on pointers drops that).
  In particular no two stored registrations share a backing array, so that the
  \<open>append\<close> of \<open>AddFileHint\<close>, which may write into the spare capacity of the
  stored array, is the list with one more element.
\<close>

type_synonym store = "(string \<times> AgentRegistration) list"

definition NewStore :: store where
  "NewStore = []"

definition Register :: "time \<Rightarrow> AgentRegistration \<Rightarrow> store \<Rightarrow> error option \<times> store" where
  "Register now agent s =
     (case AgentRegistration_Validate agent of
        Some e \<Rightarrow> (Some e, s)
      | None \<Rightarrow>
          let agent1 =
            (case map_of s (Name agent) of
               None \<Rightarrow> agent
             | Some existing \<Rightarrow>
                 let a1 = agent\<lparr>StartedAt := StartedAt existing\<rparr>;
                     a2 = (if ClaimedWork a1 = None
                           then a1\<lparr>ClaimedWork := ClaimedWork existing\<rparr> else a1);
                     a3 = (if FileHints a2 = None
                           then a2\<lparr>FileHints := FileHints existing\<rparr> else a2)
                 in a3)
          in (None, AList.update (Name agent) (agent1\<lparr>LastSeen := now\<rparr>) s))"

definition Unregister :: "string \<Rightarrow> store \<Rightarrow> error option \<times> store" where
  "Unregister name s =
     (case map_of s name of
        None \<Rightarrow> (Some (AgentNotFound name), s)
      | Some _ \<Rightarrow> (None, AList.delete name s))"

definition Get :: "string \<Rightarrow> store \<Rightarrow> AgentRegistration option" where
  "Get name s = map_of s name"

definition ListAgents :: "store \<Rightarrow> AgentRegistration list" where
  "ListAgents s = map snd s"

definition ActiveAgents :: "time \<Rightarrow> duration \<Rightarrow> store \<Rightarrow> AgentRegistration list" where
  "ActiveAgents now timeout s = filter (\<lambda>a. IsActive a now timeout) (map snd s)"

definition Heartbeat :: "time \<Rightarrow> string \<Rightarrow> store \<Rightarrow> error option \<times> store" where
  "Heartbeat now name s =
     (case map_of s name of
        None \<Rightarrow> (Some (AgentNotFound name), s)
      | Some agent \<Rightarrow>
          (None, AList.update name (agent\<lparr>LastSeen := now, Status := AgentStatusActive\<rparr>) s))"

text \<open>
  The test of the inner loops of \<open>Claim\<close> and \<open>GetClaimHolder\<close>: some claim of
  the agent is on the bead and has not expired.
\<close>

definition holds_unexpired :: "time \<Rightarrow> string \<Rightarrow> AgentRegistration \<Rightarrow> bool" where
  "holds_unexpired now beadID a \<longleftrightarrow>
     (\<exists>c \<in> set (elems (ClaimedWork a)). BeadID c = beadID \<and> \<not> WorkClaim_IsExpired c now)"

text \<open>
  The conflict scan of \<open>Claim\<close>: the agents in iteration order, skipping those whose
  \<open>Name\<close> is the claimant's, and the first unexpired claim on the bead ends the scan
  with the name of its agent.
\<close>

fun find_conflict :: "time \<Rightarrow> string \<Rightarrow> string \<Rightarrow> store \<Rightarrow> string option" where
  "find_conflict now agentName bead [] = None"
| "find_conflict now agentName bead ((k, other) # rest) =
     (if Name other = agentName then find_conflict now agentName bead rest
      else if holds_unexpired now bead other then Some (Name other)
      else find_conflict now agentName bead rest)"

definition Claim :: "time \<Rightarrow> string \<Rightarrow> WorkClaim \<Rightarrow> store \<Rightarrow> error option \<times> store" where
  "Claim now agentName claim s =
     (case WorkClaim_Validate claim of
        Some e \<Rightarrow> (Some e, s)
      | None \<Rightarrow>
          (case map_of s agentName of
             None \<Rightarrow> (Some (AgentNotFound agentName), s)
           | Some agent \<Rightarrow>
               (case find_conflict now agentName (BeadID claim) s of
                  Some holder \<Rightarrow> (Some (ConflictError (BeadID claim) holder), s)
                | None \<Rightarrow>
                    let newClaims =
                      append_slice (keep (\<lambda>c. BeadID c \<noteq> BeadID claim) (ClaimedWork agent)) claim
                    in (None,
                        AList.update agentName
                          (agent\<lparr>ClaimedWork := newClaims, LastSeen := now\<rparr>) s))))"

definition Release :: "time \<Rightarrow> string \<Rightarrow> string \<Rightarrow> store \<Rightarrow> error option \<times> store" where
  "Release now agentName beadID s =
     (case map_of s agentName of
        None \<Rightarrow> (Some (AgentNotFound agentName), s)
      | Some agent \<Rightarrow>
          let newClaims = keep (\<lambda>c. BeadID c \<noteq> beadID) (ClaimedWork agent);
              found = (\<exists>c \<in> set (elems (ClaimedWork agent)). BeadID c = beadID)
          in if \<not> found then (Some (ClaimNotFound beadID), s)
             else (None,
                   AList.update agentName
                     (agent\<lparr>ClaimedWork := newClaims, LastSeen := now\<rparr>) s))"

definition GetClaimHolder :: "time \<Rightarrow> string \<Rightarrow> store \<Rightarrow> AgentRegistration option" where
  "GetClaimHolder now beadID s = find (holds_unexpired now beadID) (map snd s)"

definition GetAllClaims :: "time \<Rightarrow> store \<Rightarrow> WorkClaim list" where
  "GetAllClaims now s =
     concat (map (\<lambda>(k, agent).
       filter (\<lambda>c. \<not> WorkClaim_IsExpired c now) (elems (ClaimedWork agent))) s)"

definition AddFileHint :: "time \<Rightarrow> string \<Rightarrow> FileHint \<Rightarrow> store \<Rightarrow> error option \<times> store" where
  "AddFileHint now agentName hint s =
     (case map_of s agentName of
        None \<Rightarrow> (Some (AgentNotFound agentName), s)
      | Some agent \<Rightarrow>
          (None,
           AList.update agentName
             (agent\<lparr>FileHints := append_slice (FileHints agent) hint, LastSeen := now\<rparr>) s))"

definition RemoveFileHint :: "time \<Rightarrow> string \<Rightarrow> string \<Rightarrow> store \<Rightarrow> error option \<times> store" where
  "RemoveFileHint now agentName pattern s =
     (case map_of s agentName of
        None \<Rightarrow> (Some (AgentNotFound agentName), s)
      | Some agent \<Rightarrow>
          (None,
           AList.update agentName
             (agent\<lparr>FileHints := keep (\<lambda>h. Pattern h \<noteq> pattern) (FileHints agent),
                    LastSeen := now\<rparr>) s))"

text \<open>
  \<open>GetFileConflicts\<close> fills two maps from pattern to a list of names (of agents, of
  beads), one \<open>append\<close> per unexpired hint of an active agent, and reports every
  pattern whose list of agents is longer than one.
\<close>

type_synonym multimap = "(string \<times> string list) list"

definition lookup_list :: "multimap \<Rightarrow> string \<Rightarrow> string list" where
  "lookup_list m k = (case map_of m k of None \<Rightarrow> [] | Some vs \<Rightarrow> vs)"

definition append_at :: "string \<Rightarrow> string \<Rightarrow> multimap \<Rightarrow> multimap" where
  "append_at k v m = AList.update k (lookup_list m k @ [v]) m"

definition note_hint :: "time \<Rightarrow> string \<Rightarrow> FileHint \<Rightarrow> multimap \<times> multimap \<Rightarrow> multimap \<times> multimap" where
  "note_hint now agentName hint acc =
     (if FileHint_IsExpired hint now then acc
      else
        let fileAgents = append_at (Pattern hint) agentName (fst acc);
            fileBeads = (if HintBeadID hint \<noteq> []
                         then append_at (Pattern hint) (HintBeadID hint) (snd acc)
                         else snd acc)
        in (fileAgents, fileBeads))"

definition note_agent :: "time \<Rightarrow> AgentRegistration \<Rightarrow> multimap \<times> multimap \<Rightarrow> multimap \<times> multimap" where
  "note_agent now agent acc =
     (if \<not> IsActive agent now DefaultInactivityThreshold then acc
      else fold (note_hint now (Name agent)) (elems (FileHints agent)) acc)"

definition GetFileConflicts :: "time \<Rightarrow> store \<Rightarrow> FileConflict list" where
  "GetFileConflicts now s =
     (let acc = fold (\<lambda>(k, agent). note_agent now agent) s ([], [])
      in map (\<lambda>(file, agents).
                \<lparr>File = file, Agents = agents, BeadIDs = lookup_list (snd acc) file,
                 Resolution = []\<rparr>)
           (filter (\<lambda>(file, agents). 1 < length agents) (fst acc)))"

definition cleanup_agent :: "time \<Rightarrow> AgentRegistration \<Rightarrow> AgentRegistration" where
  "cleanup_agent now agent =
     (let a1 = agent\<lparr>ClaimedWork := keep (\<lambda>c. \<not> WorkClaim_IsExpired c now) (ClaimedWork agent)\<rparr>;
          a2 = a1\<lparr>FileHints := keep (\<lambda>h. \<not> FileHint_IsExpired h now) (FileHints a1)\<rparr>
      in if IsStale a2 now DefaultStaleThreshold then a2\<lparr>Status := AgentStatusGone\<rparr>
         else if \<not> IsActive a2 now DefaultInactivityThreshold then a2\<lparr>Status := AgentStatusInactive\<rparr>
         else a2)"

definition CleanupExpired :: "time \<Rightarrow> store \<Rightarrow> store" where
  "CleanupExpired now s = map (\<lambda>(k, agent). (k, cleanup_agent now agent)) s"

subsection \<open>The operations as a transition system\<close>

datatype op =
    OpRegister AgentRegistration
  | OpUnregister string
  | OpClaim string WorkClaim
  | OpRelease string string
  | OpAddFileHint string FileHint
  | OpRemoveFileHint string string
  | OpHeartbeat string
  | OpCleanupExpired

fun apply_op :: "time \<Rightarrow> op \<Rightarrow> store \<Rightarrow> error option \<times> store" where
  "apply_op now (OpRegister agent) s = Register now agent s"
| "apply_op now (OpUnregister name) s = Unregister name s"
| "apply_op now (OpClaim agentName claim) s = Claim now agentName claim s"
| "apply_op now (OpRelease agentName beadID) s = Release now agentName beadID s"
| "apply_op now (OpAddFileHint agentName hint) s = AddFileHint now agentName hint s"
| "apply_op now (OpRemoveFileHint agentName pattern) s = RemoveFileHint now agentName pattern s"
| "apply_op now (OpHeartbeat name) s = Heartbeat now name s"
| "apply_op now OpCleanupExpired s = (None, CleanupExpired now s)"

section \<open>Snapshot persistence\<close>

text \<open>
  The snapshot file is the sequence of lines that \<open>bufio.Scanner\<close> (with the default
  \<open>ScanLines\<close> split) yields for it, or \<open>None\<close> when no file exists at the path.
  \<open>encoding/json\<close> is not part of the repository: \<open>Load\<close> takes \<open>json.Unmarshal\<close>
  into a fresh registration as the parameter \<open>unmarshal\<close> (\<open>None\<close> is its error) and
  \<open>Save\<close> takes the line that \<open>Encoder.Encode\<close> writes as \<open>marshal\<close>. A scanner made
  by \<open>bufio.NewScanner\<close> gives up with \<open>ErrTooLong\<close> on a line that does not fit its
  buffer of \<open>MaxScanTokenSize\<close> bytes; \<open>Scan\<close> is then false and \<open>Err\<close> is not nil.
  A line is what stands before its line feed, as \<open>Save\<close> writes it; a carriage
  return before the line feed, which the scanner drops after counting it, is not
  modelled. Other failures of the file system (permissions, a failing disk) are not
  modelled.
\<close>

type_synonym snapshot = "string list option"

definition MaxScanTokenSize :: nat where
  "MaxScanTokenSize = 64 * 1024"

fun load_lines :: "(string \<Rightarrow> AgentRegistration option) \<Rightarrow> nat \<Rightarrow> string list \<Rightarrow> store
    \<Rightarrow> error option \<times> store" where
  "load_lines unmarshal lineNum [] s = (None, s)"
| "load_lines unmarshal lineNum (line # rest) s =
     (if MaxScanTokenSize \<le> length line then (Some ReadError, s)
      else if line = [] then load_lines unmarshal (lineNum + 1) rest s
      else (case unmarshal line of
              None \<Rightarrow> (Some (ParseError (lineNum + 1)), s)
            | Some agent \<Rightarrow>
                load_lines unmarshal (lineNum + 1) rest (AList.update (Name agent) agent s)))"

definition Load :: "(string \<Rightarrow> AgentRegistration option) \<Rightarrow> snapshot \<Rightarrow> store \<Rightarrow> error option \<times> store" where
  "Load unmarshal file s =
     (case file of
        None \<Rightarrow> (None, [])
      | Some lines \<Rightarrow> load_lines unmarshal 0 lines [])"

fun save_lines :: "(AgentRegistration \<Rightarrow> string option) \<Rightarrow> store \<Rightarrow> error + string list" where
  "save_lines marshal [] = Inr []"
| "save_lines marshal ((k, agent) # rest) =
     (case marshal agent of
        None \<Rightarrow> Inl (EncodeError (Name agent))
      | Some line \<Rightarrow>
          (case save_lines marshal rest of
             Inl e \<Rightarrow> Inl e
           | Inr lines \<Rightarrow> Inr (line # lines)))"

text \<open>\<open>Save\<close> returns its error and the file found at the canonical path afterwards.\<close>

definition Save :: "(AgentRegistration \<Rightarrow> string option) \<Rightarrow> store \<Rightarrow> snapshot \<Rightarrow> error option \<times> snapshot" where
  "Save marshal s file =
     (case save_lines marshal s of
        Inl e \<Rightarrow> (Some e, file)
      | Inr lines \<Rightarrow> (None, Some lines))"

section \<open>Well-formed registries and the claim invariant\<close>

text \<open>
  A Go map has one entry per key, and the store files every registration under its own
  name (\<open>s.agents[agent.Name] = agent\<close> in \<open>Register\<close> and in \<open>Load\<close>).
\<close>

definition store_wf :: "store \<Rightarrow> bool" where
  "store_wf s \<longleftrightarrow> distinct (map fst s) \<and> (\<forall>(k, a) \<in> set s. Name a = k)"

text \<open>The unexpired claims on a bead: in one claim list, and across the registry.\<close>

definition claim_filter :: "time \<Rightarrow> string \<Rightarrow> AgentRegistration \<Rightarrow> WorkClaim list" where
  "claim_filter now b a =
     filter (\<lambda>c. BeadID c = b \<and> \<not> WorkClaim_IsExpired c now) (elems (ClaimedWork a))"

definition unexpired_claims_on :: "time \<Rightarrow> string \<Rightarrow> store \<Rightarrow> WorkClaim list" where
  "unexpired_claims_on now b s = concat (map (\<lambda>(k, a). claim_filter now b a) s)"

definition all_claims :: "store \<Rightarrow> WorkClaim list" where
  "all_claims s = concat (map (\<lambda>(k, a). elems (ClaimedWork a)) s)"

text \<open>
  The central invariant: at most one unexpired claim per bead. It is enough to ask it of
  the beads that have a claim in the registry (see \<open>claim_invariant_iff\<close>).
\<close>

definition claim_invariant :: "time \<Rightarrow> store \<Rightarrow> bool" where
  "claim_invariant now s \<longleftrightarrow>
     (\<forall>c \<in> set (all_claims s). length (unexpired_claims_on now (BeadID c) s) \<le> 1)"

text \<open>
  The states the store can reach from \<open>NewStore\<close>: time passes, and any operation may
  be called with any arguments (a failing call leaves its registry behind as well).
  \<open>reachable now s\<close> reads: the registry can be \<open>s\<close> when the clock shows \<open>now\<close>.
\<close>

inductive reachable :: "time \<Rightarrow> store \<Rightarrow> bool" where
  init: "reachable now NewStore"
| tick: "reachable now s \<Longrightarrow> now \<le> now' \<Longrightarrow> reachable now' s"
| step: "reachable now s \<Longrightarrow> reachable now (snd (apply_op now op s))"

text \<open>
  The same, for callers that never hand \<open>Register\<close> a registration with claims in it
  (\<open>NewAgentRegistration\<close> makes such registrations).
\<close>

definition claim_free :: "op \<Rightarrow> bool" where
  "claim_free op = (case op of OpRegister agent \<Rightarrow> elems (ClaimedWork agent) = [] | _ \<Rightarrow> True)"

inductive reachable_claim_free :: "time \<Rightarrow> store \<Rightarrow> bool" where
  init_cf: "reachable_claim_free now NewStore"
| tick_cf: "reachable_claim_free now s \<Longrightarrow> now \<le> now' \<Longrightarrow> reachable_claim_free now' s"
| step_cf: "reachable_claim_free now s \<Longrightarrow> claim_free op \<Longrightarrow>
            reachable_claim_free now (snd (apply_op now op s))"

section \<open>Example registries\<close>

text \<open>
  Agent \<open>A\<close> registers at time 100 and claims bead \<open>bv-1\<close>; agent \<open>B\<close> arrives with a
  registration that already lists a claim on the same bead.
\<close>

definition agent_A :: AgentRegistration where
  "agent_A = NewAgentRegistration 100 ''A'' ''model'' ''program''"

definition claim_A :: WorkClaim where
  "claim_A = NewWorkClaim 100 ''bv-1'' ''A'' ClaimReasonImplementing"

definition claim_B :: WorkClaim where
  "claim_B = NewWorkClaim 100 ''bv-1'' ''B'' ClaimReasonImplementing"

definition agent_B_with_claim :: AgentRegistration where
  "agent_B_with_claim =
     (NewAgentRegistration 100 ''B'' ''model'' ''program'')\<lparr>ClaimedWork := Some [claim_B]\<rparr>"

definition store_A :: store where
  "store_A = snd (apply_op 100 (OpClaim ''A'' claim_A)
               (snd (apply_op 100 (OpRegister agent_A) NewStore)))"

text \<open>Agent \<open>B\<close> registers without claims beside \<open>A\<close>, who holds \<open>bv-1\<close>.\<close>

definition agent_B :: AgentRegistration where
  "agent_B = NewAgentRegistration 100 ''B'' ''model'' ''program''"

definition store_AB :: store where
  "store_AB = snd (apply_op 100 (OpRegister agent_B) store_A)"

definition claim_A_renewed :: WorkClaim where
  "claim_A_renewed = NewWorkClaim 150 ''bv-1'' ''A'' ClaimReasonTesting"

text \<open>
  \<open>A\<close> registers again: once with the registration that \<open>NewAgentRegistration\<close> makes
  (empty claim and hint lists that are not nil), once with a registration whose claim
  and hint lists are nil.
\<close>

definition agent_A_again :: AgentRegistration where
  "agent_A_again = NewAgentRegistration 150 ''A'' ''model'' ''program''"

definition agent_A_nil :: AgentRegistration where
  "agent_A_nil = agent_A_again\<lparr>ClaimedWork := None, FileHints := None\<rparr>"

text \<open>
  An agent last seen at time 0 with an expired and a live claim and hint, swept exactly
  30 minutes, and 61 minutes, after its last heartbeat.
\<close>

definition old_claim :: WorkClaim where
  "old_claim = \<lparr>BeadID = ''bv-old'', Agent = ''C'', ClaimedAt = 1, ExpiresAt = 5,
                 Reason = ClaimReasonImplementing, Notes = []\<rparr>"

definition live_claim :: WorkClaim where
  "live_claim = \<lparr>BeadID = ''bv-new'', Agent = ''C'', ClaimedAt = 1, ExpiresAt = 100 * Hour,
                  Reason = ClaimReasonImplementing, Notes = []\<rparr>"

definition old_hint :: FileHint where
  "old_hint = \<lparr>Pattern = ''old.go'', HintAgent = ''C'', HintBeadID = ''bv-old'', CreatedAt = 1,
                HintExpiresAt = 5\<rparr>"

definition live_hint :: FileHint where
  "live_hint = \<lparr>Pattern = ''new.go'', HintAgent = ''C'', HintBeadID = ''bv-new'', CreatedAt = 1,
                 HintExpiresAt = 100 * Hour\<rparr>"

definition agent_C :: AgentRegistration where
  "agent_C = \<lparr>Name = ''C'', Model = ''model'', Program = ''program'', StartedAt = 0,
               LastSeen = 0, ClaimedWork = Some [old_claim, live_claim],
               FileHints = Some [old_hint, live_hint], Status = AgentStatusActive,
               Metadata = \<lparr>Version = [], SessionID = [], Tags = []\<rparr>\<rparr>"

section \<open>Where a claim is listed, and what can remove it\<close>

text \<open>
  \<open>listed k c s\<close>: the registration that \<open>Get k\<close> returns has the claim \<open>c\<close> in its
  claim list (and so has the one in \<open>List\<close>).
\<close>

definition listed :: "string \<Rightarrow> WorkClaim \<Rightarrow> store \<Rightarrow> bool" where
  "listed k c s =
     (case Get k s of None \<Rightarrow> False | Some a \<Rightarrow> c \<in> set (elems (ClaimedWork a)))"

text \<open>
  The calls that can take the claim \<open>c\<close> of agent \<open>k\<close> out of the registry: \<open>Release\<close>
  of its bead by \<open>k\<close>, \<open>CleanupExpired\<close> once it has expired, \<open>Unregister\<close> of \<open>k\<close>,
  \<open>Register\<close> under the name \<open>k\<close> with a claim list that is not nil, and \<open>Claim\<close> by
  \<open>k\<close> on the same bead.
\<close>

fun may_remove :: "time \<Rightarrow> string \<Rightarrow> WorkClaim \<Rightarrow> op \<Rightarrow> bool" where
  "may_remove now k c (OpRelease agentName beadID) \<longleftrightarrow> agentName = k \<and> beadID = BeadID c"
| "may_remove now k c OpCleanupExpired \<longleftrightarrow> WorkClaim_IsExpired c now"
| "may_remove now k c (OpUnregister name) \<longleftrightarrow> name = k"
| "may_remove now k c (OpRegister agent) \<longleftrightarrow> Name agent = k \<and> ClaimedWork agent \<noteq> None"
| "may_remove now k c (OpClaim agentName claim) \<longleftrightarrow> agentName = k \<and> BeadID claim = BeadID c"
| "may_remove now k c (OpAddFileHint agentName hint) \<longleftrightarrow> False"
| "may_remove now k c (OpRemoveFileHint agentName pattern) \<longleftrightarrow> False"
| "may_remove now k c (OpHeartbeat name) \<longleftrightarrow> False"

text \<open>
  Every call of the store that writes the registry: the eight operations above, and
  \<open>Load\<close>, which puts the records of the snapshot file in the place of the registry
  (with the decoder and the file it finds as arguments). \<open>Save\<close> and the getters
  leave the registry alone. \<open>Load\<close> can take any claim out of the registry.
\<close>

datatype call =
    Mutation op
  | LoadFrom "string \<Rightarrow> AgentRegistration option" snapshot

fun apply_call :: "time \<Rightarrow> call \<Rightarrow> store \<Rightarrow> error option \<times> store" where
  "apply_call now (Mutation op) s = apply_op now op s"
| "apply_call now (LoadFrom unmarshal file) s = Load unmarshal file s"

fun call_may_remove :: "time \<Rightarrow> string \<Rightarrow> WorkClaim \<Rightarrow> call \<Rightarrow> bool" where
  "call_may_remove now k c (Mutation op) \<longleftrightarrow> may_remove now k c op"
| "call_may_remove now k c (LoadFrom unmarshal file) \<longleftrightarrow> True"

text \<open>Later than the expiry of \<open>claim_A\<close>, agent \<open>A\<close> claims \<open>bv-1\<close> again.\<close>

definition late :: time where
  "late = 100 + 31 * Minute"

definition claim_A_late :: WorkClaim where
  "claim_A_late = NewWorkClaim late ''bv-1'' ''A'' ClaimReasonImplementing"

text \<open>
  Agent \<open>A\<close> alone, with two hints on \<open>main.go\<close> added through \<open>AddFileHint\<close>; and agents
  \<open>A\<close> and \<open>B\<close> with one hint each on \<open>main.go\<close>.
\<close>

definition hint_1 :: FileHint where
  "hint_1 = NewFileHint 100 ''main.go'' ''A'' ''bv-1''"

definition hint_2 :: FileHint where
  "hint_2 = NewFileHint 100 ''main.go'' ''A'' ''bv-2''"

definition hint_B :: FileHint where
  "hint_B = NewFileHint 100 ''main.go'' ''B'' ''bv-2''"

definition store_two_hints :: store where
  "store_two_hints =
     snd (apply_op 100 (OpAddFileHint ''A'' hint_2)
       (snd (apply_op 100 (OpAddFileHint ''A'' hint_1)
         (snd (apply_op 100 (OpRegister agent_A) NewStore)))))"

definition store_shared_file :: store where
  "store_shared_file =
     snd (apply_op 100 (OpAddFileHint ''B'' hint_B)
       (snd (apply_op 100 (OpAddFileHint ''A'' hint_1)
         (snd (apply_op 100 (OpRegister agent_B)
           (snd (apply_op 100 (OpRegister agent_A) NewStore)))))))"

text \<open>The unexpired hints on a pattern that the active agents hold, in iteration order.\<close>

definition active_hints_on :: "time \<Rightarrow> string \<Rightarrow> store \<Rightarrow> FileHint list" where
  "active_hints_on now p s =
     concat (map (\<lambda>(k, a).
       if IsActive a now DefaultInactivityThreshold
       then filter (\<lambda>h. Pattern h = p \<and> \<not> FileHint_IsExpired h now) (elems (FileHints a))
       else []) s)"

text \<open>
  A record too long for the scanner: an agent whose name has 70000 characters. The
  line that \<open>encoding/json\<close> writes for a registration contains its name, so it is at
  least as long; \<open>name_line\<close> stands for such an encoder in the examples, writing the
  name and nothing else.
\<close>

definition long_name :: string where
  "long_name = replicate 70000 (CHR ''a'')"

definition agent_long :: AgentRegistration where
  "agent_long = NewAgentRegistration 100 long_name ''model'' ''program''"

definition name_line :: "AgentRegistration \<Rightarrow> string option" where
  "name_line a = Some (Name a)"

text \<open>A decoder for \<open>name_line\<close>: it reads a line back as a fresh registration of that name.\<close>

definition name_unline :: "string \<Rightarrow> AgentRegistration option" where
  "name_unline l = Some (NewAgentRegistration 100 l ''model'' ''program'')"

text \<open>A line of 70000 characters that is no record.\<close>

definition garbage_line :: string where
  "garbage_line = replicate 70000 (CHR ''x'')"

section \<open>The store with its pointers\<close>

text \<open>
  The store holds \<open>*AgentRegistration\<close> pointers, and a registration holds slices, which
  point into backing arrays. To say what a caller can do with the pointer it hands to
  \<open>Register\<close> or gets from \<open>Get\<close>, the memory is made explicit: registrations and the
  arrays of claims and hints live at addresses, a slice is nil or an array address
  with a length, and the store's map sends a name to the address of a registration.
  (None of the code below slices an array or appends in place, so a slice needs no
  offset and no capacity here. The \<open>Tags\<close> slice of the metadata behaves like the two
  others and is kept as a value.)
\<close>

type_synonym addr = int

datatype slice_ref = NilSlice | SliceAt addr nat

record agent_object =
  oName :: string
  oModel :: string
  oProgram :: string
  oStartedAt :: time
  oLastSeen :: time
  oClaimedWork :: slice_ref
  oFileHints :: slice_ref
  oStatus :: agent_status
  oMetadata :: AgentMeta

record memory =
  agents :: "(string \<times> addr) list"
  objects :: "addr \<rightharpoonup> agent_object"
  claim_arrays :: "addr \<rightharpoonup> WorkClaim list"
  hint_arrays :: "addr \<rightharpoonup> FileHint list"
  fresh :: addr

definition empty_memory :: memory where
  "empty_memory = \<lparr>agents = [], objects = Map.empty, claim_arrays = Map.empty,
                    hint_arrays = Map.empty, fresh = 0\<rparr>"

text \<open>What a slice shows: the first \<open>n\<close> elements of its array.\<close>

definition read_slice :: "(addr \<rightharpoonup> 'a list) \<Rightarrow> slice_ref \<Rightarrow> 'a slice" where
  "read_slice arrays r =
     (case r of
        NilSlice \<Rightarrow> None
      | SliceAt a n \<Rightarrow> (case arrays a of None \<Rightarrow> Some [] | Some xs \<Rightarrow> Some (take n xs)))"

definition registration_of :: "memory \<Rightarrow> agent_object \<Rightarrow> AgentRegistration" where
  "registration_of m obj =
     \<lparr>Name = oName obj, Model = oModel obj, Program = oProgram obj,
      StartedAt = oStartedAt obj, LastSeen = oLastSeen obj,
      ClaimedWork = read_slice (claim_arrays m) (oClaimedWork obj),
      FileHints = read_slice (hint_arrays m) (oFileHints obj),
      Status = oStatus obj, Metadata = oMetadata obj\<rparr>"

text \<open>
  What a pointer to a registration shows, and the registry that the store's map shows:
  the state that the operations of the store read.
\<close>

definition deref :: "memory \<Rightarrow> addr \<Rightarrow> AgentRegistration option" where
  "deref m p = map_option (registration_of m) (objects m p)"

definition view_of :: "(addr \<Rightarrow> AgentRegistration option) \<Rightarrow> (string \<times> addr) list \<Rightarrow> store" where
  "view_of d al = concat (map (\<lambda>(k, p). case d p of None \<Rightarrow> [] | Some r \<Rightarrow> [(k, r)]) al)"

definition view :: "memory \<Rightarrow> store" where
  "view m = view_of (deref m) (agents m)"

text \<open>Allocation: a new registration, a new array.\<close>

definition new_object :: "agent_object \<Rightarrow> memory \<Rightarrow> addr \<times> memory" where
  "new_object obj m =
     (fresh m, m\<lparr>objects := (objects m)(fresh m \<mapsto> obj), fresh := fresh m + 1\<rparr>)"

definition new_claim_array :: "WorkClaim list \<Rightarrow> memory \<Rightarrow> slice_ref \<times> memory" where
  "new_claim_array xs m =
     (SliceAt (fresh m) (length xs),
      m\<lparr>claim_arrays := (claim_arrays m)(fresh m \<mapsto> xs), fresh := fresh m + 1\<rparr>)"

definition new_hint_array :: "FileHint list \<Rightarrow> memory \<Rightarrow> slice_ref \<times> memory" where
  "new_hint_array xs m =
     (SliceAt (fresh m) (length xs),
      m\<lparr>hint_arrays := (hint_arrays m)(fresh m \<mapsto> xs), fresh := fresh m + 1\<rparr>)"

text \<open>\<open>NewAgentRegistration\<close> returns a pointer to a new registration with two empty slices.\<close>

definition NewAgentRegistration_ptr :: "time \<Rightarrow> string \<Rightarrow> string \<Rightarrow> string \<Rightarrow> memory \<Rightarrow> addr \<times> memory" where
  "NewAgentRegistration_ptr now name model program m =
     (let (cw, m1) = new_claim_array [] m;
          (fh, m2) = new_hint_array [] m1
      in new_object
           \<lparr>oName = name, oModel = model, oProgram = program, oStartedAt = now, oLastSeen = now,
            oClaimedWork = cw, oFileHints = fh, oStatus = AgentStatusActive,
            oMetadata = \<lparr>Version = [], SessionID = [], Tags = []\<rparr>\<rparr> m2)"

text \<open>
  \<open>Register\<close> on pointers: it validates and updates the caller's registration in place
  and stores the caller's pointer. The result is \<open>None\<close> when the pointer is nil or
  dangling (the Go code panics).
\<close>

definition Register_ptr :: "time \<Rightarrow> addr \<Rightarrow> memory \<Rightarrow> (error option \<times> memory) option" where
  "Register_ptr now p m =
     (case objects m p of
        None \<Rightarrow> None
      | Some agent \<Rightarrow>
          (case AgentRegistration_Validate (registration_of m agent) of
             Some e \<Rightarrow> Some (Some e, m)
           | None \<Rightarrow>
               let agent1 =
                 (case map_of (agents m) (oName agent) of
                    None \<Rightarrow> agent
                  | Some q \<Rightarrow>
                      (case objects m q of
                         None \<Rightarrow> agent
                       | Some existing \<Rightarrow>
                           let a1 = agent\<lparr>oStartedAt := oStartedAt existing\<rparr>;
                               a2 = (if oClaimedWork a1 = NilSlice
                                     then a1\<lparr>oClaimedWork := oClaimedWork existing\<rparr> else a1);
                               a3 = (if oFileHints a2 = NilSlice
                                     then a2\<lparr>oFileHints := oFileHints existing\<rparr> else a2)
                           in a3))
               in Some (None,
                        m\<lparr>objects := (objects m)(p \<mapsto> agent1\<lparr>oLastSeen := now\<rparr>),
                          agents := AList.update (oName agent) p (agents m)\<rparr>)))"

text \<open>
  \<open>Get\<close> on pointers: \<open>copy := *agent; return &copy\<close> allocates a new registration with
  the fields of the stored one, slice headers included.
\<close>

definition Get_ptr :: "string \<Rightarrow> memory \<Rightarrow> addr option \<times> memory" where
  "Get_ptr name m =
     (case map_of (agents m) name of
        None \<Rightarrow> (None, m)
      | Some p \<Rightarrow>
          (case objects m p of
             None \<Rightarrow> (None, m)
           | Some agent \<Rightarrow> (let (q, m') = new_object agent m in (Some q, m'))))"

text \<open>
  \<open>Claim\<close> on pointers: the checks read the registry; the loop builds the new claim
  list in a new array and the stored registration is updated in place.
\<close>

definition Claim_ptr :: "time \<Rightarrow> string \<Rightarrow> WorkClaim \<Rightarrow> memory \<Rightarrow> error option \<times> memory" where
  "Claim_ptr now agentName claim m =
     (case WorkClaim_Validate claim of
        Some e \<Rightarrow> (Some e, m)
      | None \<Rightarrow>
          (case map_of (agents m) agentName of
             None \<Rightarrow> (Some (AgentNotFound agentName), m)
           | Some p \<Rightarrow>
               (case objects m p of
                  None \<Rightarrow> (Some (AgentNotFound agentName), m)
                | Some agent \<Rightarrow>
                    (case find_conflict now agentName (BeadID claim) (view m) of
                       Some holder \<Rightarrow> (Some (ConflictError (BeadID claim) holder), m)
                     | None \<Rightarrow>
                         let old = elems (read_slice (claim_arrays m) (oClaimedWork agent));
                             (newClaims, m1) =
                               new_claim_array
                                 (filter (\<lambda>c. BeadID c \<noteq> BeadID claim) old @ [claim]) m
                         in (None,
                             m1\<lparr>objects := (objects m1)
                                   (p \<mapsto> agent\<lparr>oClaimedWork := newClaims, oLastSeen := now\<rparr>)\<rparr>)))))"

text \<open>
  What a caller can do with a pointer \<open>p\<close> to a registration: assign a field
  (\<open>p.Status = v\<close>), and assign an element of its claim list (\<open>p.ClaimedWork[i] = c\<close>,
  which panics when \<open>i\<close> is out of range).
\<close>

definition assign_Status :: "addr \<Rightarrow> agent_status \<Rightarrow> memory \<Rightarrow> memory option" where
  "assign_Status p v m =
     (case objects m p of
        None \<Rightarrow> None
      | Some obj \<Rightarrow> Some (m\<lparr>objects := (objects m)(p \<mapsto> obj\<lparr>oStatus := v\<rparr>)\<rparr>))"

definition assign_claim :: "addr \<Rightarrow> nat \<Rightarrow> WorkClaim \<Rightarrow> memory \<Rightarrow> memory option" where
  "assign_claim p i c m =
     (case objects m p of
        None \<Rightarrow> None
      | Some obj \<Rightarrow>
          (case oClaimedWork obj of
             NilSlice \<Rightarrow> None
           | SliceAt a n \<Rightarrow>
               (case claim_arrays m a of
                  None \<Rightarrow> None
                | Some xs \<Rightarrow>
                    if i < n \<and> i < length xs
                    then Some (m\<lparr>claim_arrays := (claim_arrays m)(a \<mapsto> xs[i := c])\<rparr>)
                    else None)))"

text \<open>
  A caller makes a registration for \<open>A\<close>, registers it, claims \<open>bv-1\<close>, and gets the
  registration back from the store.
\<close>

definition memory_registered :: memory where
  "memory_registered =
     (let (p, m1) = NewAgentRegistration_ptr 100 ''A'' ''model'' ''program'' empty_memory
      in case Register_ptr 100 p m1 of None \<Rightarrow> m1 | Some (e, m2) \<Rightarrow> m2)"

definition memory_claimed :: memory where
  "memory_claimed = snd (Claim_ptr 100 ''A'' claim_A memory_registered)"

definition memory_got :: memory where
  "memory_got = snd (Get_ptr ''A'' memory_claimed)"

definition claim_other :: WorkClaim where
  "claim_other = claim_A\<lparr>BeadID := ''bv-2''\<rparr>"

text \<open>
  A memory in which the store is the only owner of what its map reaches: one entry per
  name, no registration filed twice, every stored pointer and every array of a stored
  slice allocated, and every registration filed under its name.
\<close>

definition slice_ok :: "(addr \<rightharpoonup> 'a list) \<Rightarrow> addr \<Rightarrow> slice_ref \<Rightarrow> bool" where
  "slice_ok arrays fr r =
     (case r of
        NilSlice \<Rightarrow> True
      | SliceAt a n \<Rightarrow> a < fr \<and> (case arrays a of None \<Rightarrow> False | Some xs \<Rightarrow> n \<le> length xs))"

definition object_ok :: "memory \<Rightarrow> string \<Rightarrow> addr \<Rightarrow> bool" where
  "object_ok m k p =
     (p < fresh m \<and>
      (case objects m p of
         None \<Rightarrow> False
       | Some obj \<Rightarrow>
           oName obj = k \<and> slice_ok (claim_arrays m) (fresh m) (oClaimedWork obj) \<and>
           slice_ok (hint_arrays m) (fresh m) (oFileHints obj)))"

definition memory_wf :: "memory \<Rightarrow> bool" where
  "memory_wf m \<longleftrightarrow>
     distinct (map fst (agents m)) \<and> distinct (map snd (agents m)) \<and>
     (\<forall>(k, p) \<in> set (agents m). object_ok m k p)"

section \<open>Properties of the store\<close>

subsection \<open>Slices\<close>

lemma fold_keep_aux:
  "fold (\<lambda>x out. if p x then append_slice out x else out) xs acc =
     (if filter p xs = [] then acc else Some (elems acc @ filter p xs))"
  by (induction xs arbitrary: acc) (auto simp: append_slice_def elems_def)

lemma elems_keep [simp]: "elems (keep p s) = filter p (elems s)"
  by (simp add: keep_def fold_keep_aux elems_def)

lemma keep_eq: "keep p s = (if filter p (elems s) = [] then None else Some (filter p (elems s)))"
  by (simp add: keep_def fold_keep_aux elems_def)

lemma elems_append_slice [simp]: "elems (append_slice s x) = elems s @ [x]"
  by (simp add: append_slice_def elems_def)

lemma elems_simps [simp]: "elems None = []" "elems (Some xs) = xs"
  by (simp_all add: elems_def)

lemma find_conflict_None:
  "find_conflict now n b s = None \<longleftrightarrow>
     (\<forall>(k, a) \<in> set s. Name a \<noteq> n \<longrightarrow> \<not> holds_unexpired now b a)"
  by (induction now n b s rule: find_conflict.induct) (auto split: if_splits)

lemma find_conflict_Some:
  "find_conflict now n b s = Some h \<Longrightarrow>
     \<exists>(k, a) \<in> set s. Name a = h \<and> h \<noteq> n \<and> holds_unexpired now b a"
  by (induction s) (auto split: if_splits)

lemma holds_unexpired_iff: "holds_unexpired now b a \<longleftrightarrow> claim_filter now b a \<noteq> []"
  by (auto simp: holds_unexpired_def claim_filter_def filter_empty_conv)

lemma unexpired_update_present:
  "distinct (map fst s) \<Longrightarrow> map_of s k = Some a \<Longrightarrow>
   length (unexpired_claims_on now b (AList.update k a' s)) + length (claim_filter now b a) =
   length (unexpired_claims_on now b s) + length (claim_filter now b a')"
proof (induction s)
  case Nil then show ?case by simp
next
  case (Cons p s)
  obtain k0 a0 where p: "p = (k0, a0)" by (cases p)
  show ?case
  proof (cases "k0 = k")
    case True
    with Cons.prems p have "a0 = a" by simp
    with True p show ?thesis by (simp add: unexpired_claims_on_def)
  next
    case False
    with Cons p show ?thesis by (simp add: unexpired_claims_on_def)
  qed
qed

lemma unexpired_update_absent:
  "map_of s k = None \<Longrightarrow>
   unexpired_claims_on now b (AList.update k a' s) = unexpired_claims_on now b s @ claim_filter now b a'"
  by (induction s) (auto simp: unexpired_claims_on_def split: if_splits)

lemma unexpired_delete:
  "length (unexpired_claims_on now b (AList.delete k s)) \<le> length (unexpired_claims_on now b s)"
  by (induction s) (auto simp: unexpired_claims_on_def)

lemma unexpired_only_own:
  "distinct (map fst s) \<Longrightarrow> map_of s k = Some a \<Longrightarrow>
   \<forall>(k', a') \<in> set s. k' \<noteq> k \<longrightarrow> claim_filter now b a' = [] \<Longrightarrow>
   unexpired_claims_on now b s = claim_filter now b a"
proof (induction s)
  case Nil then show ?case by simp
next
  case (Cons p s)
  obtain k0 a0 where p: "p = (k0, a0)" by (cases p)
  show ?case
  proof (cases "k0 = k")
    case True
    with Cons.prems p have a0: "a0 = a" by simp
    from Cons.prems p True have "\<forall>(k', a') \<in> set s. claim_filter now b a' = []"
      by (auto simp: rev_image_eqI)
    then have "unexpired_claims_on now b s = []"
      by (auto simp: unexpired_claims_on_def)
    with True p a0 show ?thesis by (simp add: unexpired_claims_on_def)
  next
    case False
    with Cons p show ?thesis by (auto simp: unexpired_claims_on_def)
  qed
qed

subsection \<open>Well-formed registries\<close>

lemma store_wf_Nil [simp]: "store_wf []"
  by (simp add: store_wf_def)

lemma store_wf_iff:
  "store_wf s \<longleftrightarrow> distinct (map fst s) \<and> (\<forall>k a. map_of s k = Some a \<longrightarrow> Name a = k)"
  unfolding store_wf_def by (auto dest: map_of_SomeD)

lemma store_wf_update:
  "store_wf s \<Longrightarrow> Name a = k \<Longrightarrow> store_wf (AList.update k a s)"
  unfolding store_wf_iff by (auto simp: distinct_update update_conv' split: if_splits)

lemma store_wf_delete: "store_wf s \<Longrightarrow> store_wf (AList.delete k s)"
  unfolding store_wf_iff by (auto simp: distinct_delete delete_conv' split: if_splits)

lemma store_wf_lookup: "store_wf s \<Longrightarrow> map_of s k = Some a \<Longrightarrow> Name a = k"
  by (auto simp: store_wf_def dest!: map_of_SomeD)

lemma Name_cleanup_agent [simp]: "Name (cleanup_agent now a) = Name a"
  by (simp add: cleanup_agent_def Let_def)

lemma map_fst_CleanupExpired [simp]: "map fst (CleanupExpired now s) = map fst s"
  by (induction s) (auto simp: CleanupExpired_def)

lemma store_wf_CleanupExpired: "store_wf s \<Longrightarrow> store_wf (CleanupExpired now s)"
proof -
  assume wf: "store_wf s"
  have "\<forall>(k, a) \<in> set (CleanupExpired now s). Name a = k"
    using wf by (auto simp: store_wf_def CleanupExpired_def)
  with wf show ?thesis by (simp add: store_wf_def)
qed

lemma store_wf_apply_op: "store_wf s \<Longrightarrow> store_wf (snd (apply_op now op s))"
proof (cases op)
  case (OpRegister agent)
  assume "store_wf s"
  then show ?thesis using OpRegister
    by (auto simp: Register_def Let_def store_wf_update split: option.splits)
next
  case (OpUnregister name)
  assume "store_wf s"
  then show ?thesis using OpUnregister
    by (auto simp: Unregister_def store_wf_delete split: option.splits)
next
  case (OpClaim n c)
  assume "store_wf s"
  then show ?thesis using OpClaim
    by (auto simp: Claim_def Let_def store_wf_update store_wf_lookup split: option.splits)
next
  case (OpRelease n b)
  assume "store_wf s"
  then show ?thesis using OpRelease
    by (auto simp: Release_def Let_def store_wf_update store_wf_lookup split: option.splits)
next
  case (OpAddFileHint n h)
  assume "store_wf s"
  then show ?thesis using OpAddFileHint
    by (auto simp: AddFileHint_def store_wf_update store_wf_lookup split: option.splits)
next
  case (OpRemoveFileHint n p)
  assume "store_wf s"
  then show ?thesis using OpRemoveFileHint
    by (auto simp: RemoveFileHint_def store_wf_update store_wf_lookup split: option.splits)
next
  case (OpHeartbeat n)
  assume "store_wf s"
  then show ?thesis using OpHeartbeat
    by (auto simp: Heartbeat_def store_wf_update store_wf_lookup split: option.splits)
next
  case OpCleanupExpired
  assume "store_wf s"
  then show ?thesis using OpCleanupExpired by (simp add: store_wf_CleanupExpired)
qed

lemma reachable_wf: "reachable now s \<Longrightarrow> store_wf s"
  by (induction rule: reachable.induct) (simp_all add: NewStore_def store_wf_apply_op)

lemma reachable_claim_free_wf: "reachable_claim_free now s \<Longrightarrow> store_wf s"
  by (induction rule: reachable_claim_free.induct) (simp_all add: NewStore_def store_wf_apply_op)

subsection \<open>Counting unexpired claims\<close>

lemma unexpired_update_le:
  assumes "distinct (map fst s)" and "map_of s k = Some a"
    and "length (claim_filter now b a') \<le> length (claim_filter now b a)"
  shows "length (unexpired_claims_on now b (AList.update k a' s)) \<le> length (unexpired_claims_on now b s)"
  using unexpired_update_present [OF assms(1,2), of now b a'] assms(3) by linarith

lemma unexpired_claims_subset:
  "c \<in> set (unexpired_claims_on now b s) \<Longrightarrow> c \<in> set (all_claims s) \<and> BeadID c = b"
  by (auto simp: unexpired_claims_on_def all_claims_def claim_filter_def)

lemma claim_invariant_iff:
  "claim_invariant now s \<longleftrightarrow> (\<forall>b. length (unexpired_claims_on now b s) \<le> 1)"
proof
  assume inv: "claim_invariant now s"
  show "\<forall>b. length (unexpired_claims_on now b s) \<le> 1"
  proof
    fix b
    show "length (unexpired_claims_on now b s) \<le> 1"
    proof (cases "unexpired_claims_on now b s")
      case Nil then show ?thesis by simp
    next
      case (Cons c cs)
      then have "c \<in> set (unexpired_claims_on now b s)" by simp
      then have "c \<in> set (all_claims s)" and "BeadID c = b"
        using unexpired_claims_subset by blast+
      with inv show ?thesis by (auto simp: claim_invariant_def)
    qed
  qed
next
  assume "\<forall>b. length (unexpired_claims_on now b s) \<le> 1"
  then show "claim_invariant now s" by (simp add: claim_invariant_def)
qed

lemma claim_filter_later:
  "now \<le> now' \<Longrightarrow> length (claim_filter now' b a) \<le> length (claim_filter now b a)"
proof -
  assume le: "now \<le> now'"
  have "claim_filter now' b a = filter (\<lambda>c. \<not> WorkClaim_IsExpired c now') (claim_filter now b a)"
    using le by (auto simp: claim_filter_def WorkClaim_IsExpired_def intro!: filter_cong)
  then show ?thesis by simp
qed

lemma unexpired_later:
  "now \<le> now' \<Longrightarrow> length (unexpired_claims_on now' b s) \<le> length (unexpired_claims_on now b s)"
proof (induction s)
  case Nil then show ?case by (simp add: unexpired_claims_on_def)
next
  case (Cons p s)
  obtain k a where p: "p = (k, a)" by (cases p)
  from Cons claim_filter_later [of now now' b a] p show ?case
    by (simp add: unexpired_claims_on_def)
qed

lemma claim_invariant_later:
  assumes "now \<le> now'" and "claim_invariant now s"
  shows "claim_invariant now' s"
  unfolding claim_invariant_iff
proof
  fix b
  from assms(2) have "length (unexpired_claims_on now b s) \<le> 1"
    by (simp add: claim_invariant_iff)
  with unexpired_later [OF assms(1), of b s]
  show "length (unexpired_claims_on now' b s) \<le> 1" by linarith
qed

lemma claim_filter_cleanup [simp]: "claim_filter now b (cleanup_agent now a) = claim_filter now b a"
  by (auto simp: claim_filter_def cleanup_agent_def Let_def intro!: filter_cong)

lemma unexpired_CleanupExpired [simp]:
  "unexpired_claims_on now b (CleanupExpired now s) = unexpired_claims_on now b s"
  by (induction s) (auto simp: unexpired_claims_on_def CleanupExpired_def)

lemma claim_filter_Nil: "elems (ClaimedWork a) = [] \<Longrightarrow> claim_filter now b a = []"
  by (simp add: claim_filter_def)

lemma claim_invariant_le:
  assumes "claim_invariant now s"
    and "\<And>b. length (unexpired_claims_on now b s') \<le> length (unexpired_claims_on now b s)"
  shows "claim_invariant now s'"
  unfolding claim_invariant_iff
proof
  fix b
  from assms(1) have "length (unexpired_claims_on now b s) \<le> 1"
    by (simp add: claim_invariant_iff)
  with assms(2) [of b] show "length (unexpired_claims_on now b s') \<le> 1" by linarith
qed

lemma claim_invariant_Register:
  assumes wf: "store_wf s" and inv: "claim_invariant now s" and cf: "elems (ClaimedWork agent) = []"
  shows "claim_invariant now (snd (Register now agent s))"
proof (cases "AgentRegistration_Validate agent")
  case (Some e)
  with inv show ?thesis by (simp add: Register_def)
next
  case None
  from wf have d: "distinct (map fst s)" by (simp add: store_wf_def)
  show ?thesis
  proof (cases "map_of s (Name agent)")
    case N: None
    have "\<And>b. claim_filter now b (agent\<lparr>LastSeen := now\<rparr>) = []"
      using cf by (simp add: claim_filter_def)
    with inv N None show ?thesis
      by (simp add: Register_def claim_invariant_iff unexpired_update_absent)
  next
    case (Some existing)
    define a' where "a' = (let a1 = agent\<lparr>StartedAt := StartedAt existing\<rparr>;
                     a2 = (if ClaimedWork a1 = None
                           then a1\<lparr>ClaimedWork := ClaimedWork existing\<rparr> else a1);
                     a3 = (if FileHints a2 = None
                           then a2\<lparr>FileHints := FileHints existing\<rparr> else a2)
                 in a3)\<lparr>LastSeen := now\<rparr>"
    have s': "snd (Register now agent s) = AList.update (Name agent) a' s"
      using None Some by (simp add: Register_def a'_def Let_def)
    have "\<And>b. length (claim_filter now b a') \<le> length (claim_filter now b existing)"
      using cf by (auto simp: a'_def Let_def claim_filter_def)
    then have "\<And>b. length (unexpired_claims_on now b (AList.update (Name agent) a' s))
                 \<le> length (unexpired_claims_on now b s)"
      by (rule unexpired_update_le [OF d Some])
    with inv have "claim_invariant now (AList.update (Name agent) a' s)"
      by (rule claim_invariant_le)
    with s' show ?thesis by simp
  qed
qed

lemma claim_invariant_Unregister:
  "claim_invariant now s \<Longrightarrow> claim_invariant now (snd (Unregister name s))"
proof (cases "map_of s name")
  case None
  assume "claim_invariant now s"
  with None show ?thesis by (simp add: Unregister_def)
next
  case (Some a)
  assume "claim_invariant now s"
  then have "claim_invariant now (AList.delete name s)"
    by (rule claim_invariant_le) (rule unexpired_delete)
  with Some show ?thesis by (simp add: Unregister_def)
qed

lemma claim_invariant_update:
  assumes wf: "store_wf s" and inv: "claim_invariant now s" and look: "map_of s k = Some a"
    and le: "\<And>b. length (claim_filter now b a') \<le> length (claim_filter now b a)"
  shows "claim_invariant now (AList.update k a' s)"
proof -
  from wf have d: "distinct (map fst s)" by (simp add: store_wf_def)
  show ?thesis
    using inv by (rule claim_invariant_le) (rule unexpired_update_le [OF d look le])
qed

lemma unexpired_only_own_map:
  assumes d: "distinct (map fst s)" and look: "map_of s k = Some a"
    and others: "\<And>k' a'. k' \<noteq> k \<Longrightarrow> map_of s k' = Some a' \<Longrightarrow> claim_filter now b a' = []"
  shows "unexpired_claims_on now b s = claim_filter now b a"
proof (rule unexpired_only_own [OF d look])
  show "\<forall>(k', a') \<in> set s. k' \<noteq> k \<longrightarrow> claim_filter now b a' = []"
    using others d by (auto dest: map_of_is_SomeI)
qed

lemma no_conflict_others:
  assumes wf: "store_wf s" and nc: "find_conflict now n b s = None"
    and look: "map_of s k' = Some a'" and ne: "k' \<noteq> n"
  shows "claim_filter now b a' = []"
proof -
  from wf look have nm: "Name a' = k'" by (rule store_wf_lookup)
  from look have "(k', a') \<in> set s" by (rule map_of_SomeD)
  with nc nm ne have "\<not> holds_unexpired now b a'"
    by (auto simp: find_conflict_None)
  then show ?thesis by (simp add: holds_unexpired_iff)
qed

lemma claim_invariant_Claim:
  assumes wf: "store_wf s" and inv: "claim_invariant now s"
  shows "claim_invariant now (snd (Claim now n c s))"
proof (cases "fst (Claim now n c s)")
  case (Some e)
  then have "snd (Claim now n c s) = s"
    by (auto simp: Claim_def Let_def split: option.splits)
  with inv show ?thesis by simp
next
  case None
  then obtain agent where v: "WorkClaim_Validate c = None" and look: "map_of s n = Some agent"
    and nc: "find_conflict now n (BeadID c) s = None"
    by (auto simp: Claim_def Let_def split: option.splits)
  define a' where "a' = agent\<lparr>ClaimedWork :=
      append_slice (keep (\<lambda>x. BeadID x \<noteq> BeadID c) (ClaimedWork agent)) c, LastSeen := now\<rparr>"
  have s': "snd (Claim now n c s) = AList.update n a' s"
    using v look nc by (simp add: Claim_def Let_def a'_def)
  from wf have d: "distinct (map fst s)" by (simp add: store_wf_def)
  have "length (unexpired_claims_on now b (AList.update n a' s)) \<le> 1" for b
  proof (cases "b = BeadID c")
    case True
    have d': "distinct (map fst (AList.update n a' s))" using d by (simp add: distinct_update)
    have look': "map_of (AList.update n a' s) n = Some a'" by (simp add: update_conv')
    have "unexpired_claims_on now b (AList.update n a' s) = claim_filter now b a'"
    proof (rule unexpired_only_own_map [OF d' look'])
      fix k' x assume "k' \<noteq> n" and "map_of (AList.update n a' s) k' = Some x"
      then have "map_of s k' = Some x" by (simp add: update_conv')
      with wf nc \<open>k' \<noteq> n\<close> True show "claim_filter now b x = []"
        using no_conflict_others by blast
    qed
    moreover have "length (claim_filter now b a') \<le> 1"
      using True by (simp add: a'_def claim_filter_def)
    ultimately show ?thesis by simp
  next
    case False
    have "claim_filter now b a' = claim_filter now b agent"
      using False by (auto simp: a'_def claim_filter_def intro!: filter_cong)
    then have "length (unexpired_claims_on now b (AList.update n a' s))
                 \<le> length (unexpired_claims_on now b s)"
      using unexpired_update_le [OF d look, of now b a'] by simp
    moreover from inv have "length (unexpired_claims_on now b s) \<le> 1"
      by (simp add: claim_invariant_iff)
    ultimately show ?thesis by linarith
  qed
  with s' show ?thesis by (simp add: claim_invariant_iff)
qed

lemma claim_invariant_Release:
  assumes wf: "store_wf s" and inv: "claim_invariant now s"
  shows "claim_invariant now (snd (Release now n b s))"
proof (cases "fst (Release now n b s)")
  case (Some e)
  then have "snd (Release now n b s) = s"
    by (auto simp: Release_def Let_def split: option.splits if_splits)
  with inv show ?thesis by simp
next
  case None
  then obtain agent where look: "map_of s n = Some agent"
    and s': "snd (Release now n b s) = AList.update n
       (agent\<lparr>ClaimedWork := keep (\<lambda>c. BeadID c \<noteq> b) (ClaimedWork agent), LastSeen := now\<rparr>) s"
    by (auto simp: Release_def Let_def split: option.splits if_splits)
  have "claim_invariant now (AList.update n
       (agent\<lparr>ClaimedWork := keep (\<lambda>c. BeadID c \<noteq> b) (ClaimedWork agent), LastSeen := now\<rparr>) s)"
  proof (rule claim_invariant_update [OF wf inv look])
    fix b'
    have "claim_filter now b'
            (agent\<lparr>ClaimedWork := keep (\<lambda>c. BeadID c \<noteq> b) (ClaimedWork agent), LastSeen := now\<rparr>)
          = filter (\<lambda>c. BeadID c \<noteq> b) (claim_filter now b' agent)"
      by (auto simp: claim_filter_def intro!: filter_cong)
    then show "length (claim_filter now b'
            (agent\<lparr>ClaimedWork := keep (\<lambda>c. BeadID c \<noteq> b) (ClaimedWork agent), LastSeen := now\<rparr>))
          \<le> length (claim_filter now b' agent)"
      by simp
  qed
  with s' show ?thesis by simp
qed

lemma claim_invariant_AddFileHint:
  assumes wf: "store_wf s" and inv: "claim_invariant now s"
  shows "claim_invariant now (snd (AddFileHint now n h s))"
proof (cases "map_of s n")
  case None
  with inv show ?thesis by (simp add: AddFileHint_def)
next
  case (Some agent)
  have "claim_invariant now (AList.update n
          (agent\<lparr>FileHints := append_slice (FileHints agent) h, LastSeen := now\<rparr>) s)"
    by (rule claim_invariant_update [OF wf inv Some]) (simp add: claim_filter_def)
  with Some show ?thesis by (simp add: AddFileHint_def)
qed

lemma claim_invariant_RemoveFileHint:
  assumes wf: "store_wf s" and inv: "claim_invariant now s"
  shows "claim_invariant now (snd (RemoveFileHint now n p s))"
proof (cases "map_of s n")
  case None
  with inv show ?thesis by (simp add: RemoveFileHint_def)
next
  case (Some agent)
  have "claim_invariant now (AList.update n
          (agent\<lparr>FileHints := keep (\<lambda>h. Pattern h \<noteq> p) (FileHints agent), LastSeen := now\<rparr>) s)"
    by (rule claim_invariant_update [OF wf inv Some]) (simp add: claim_filter_def)
  with Some show ?thesis by (simp add: RemoveFileHint_def)
qed

lemma claim_invariant_Heartbeat:
  assumes wf: "store_wf s" and inv: "claim_invariant now s"
  shows "claim_invariant now (snd (Heartbeat now n s))"
proof (cases "map_of s n")
  case None
  with inv show ?thesis by (simp add: Heartbeat_def)
next
  case (Some agent)
  have "claim_invariant now (AList.update n
          (agent\<lparr>LastSeen := now, Status := AgentStatusActive\<rparr>) s)"
    by (rule claim_invariant_update [OF wf inv Some]) (simp add: claim_filter_def)
  with Some show ?thesis by (simp add: Heartbeat_def)
qed

lemma claim_invariant_CleanupExpired:
  "claim_invariant now s \<Longrightarrow> claim_invariant now (CleanupExpired now s)"
  by (simp add: claim_invariant_iff)

lemma claim_invariant_apply_op:
  assumes wf: "store_wf s" and inv: "claim_invariant now s" and cf: "claim_free op"
  shows "claim_invariant now (snd (apply_op now op s))"
proof (cases op)
  case (OpRegister agent)
  with cf have "elems (ClaimedWork agent) = []" by (simp add: claim_free_def)
  with wf inv OpRegister show ?thesis by (simp add: claim_invariant_Register)
next
  case (OpUnregister name)
  with inv show ?thesis by (simp add: claim_invariant_Unregister)
next
  case (OpClaim n c)
  with wf inv show ?thesis by (simp add: claim_invariant_Claim)
next
  case (OpRelease n b)
  with wf inv show ?thesis by (simp add: claim_invariant_Release)
next
  case (OpAddFileHint n h)
  with wf inv show ?thesis by (simp add: claim_invariant_AddFileHint)
next
  case (OpRemoveFileHint n p)
  with wf inv show ?thesis by (simp add: claim_invariant_RemoveFileHint)
next
  case (OpHeartbeat n)
  with wf inv show ?thesis by (simp add: claim_invariant_Heartbeat)
next
  case OpCleanupExpired
  with inv show ?thesis by (simp add: claim_invariant_CleanupExpired)
qed

lemma claim_invariant_NewStore: "claim_invariant now NewStore"
  by (simp add: claim_invariant_def NewStore_def all_claims_def)

subsection \<open>The claim invariant\<close>

lemmas example_defs =
  agent_A_def claim_A_def claim_B_def agent_B_with_claim_def
  NewAgentRegistration_def NewWorkClaim_def NewStore_def
  DefaultClaimExpiry_def DefaultFileHintExpiry_def Minute_def Hour_def
  ClaimReasonImplementing_def AgentStatusActive_def

lemma store_A_eq:
  "store_A = [(''A'', agent_A\<lparr>ClaimedWork := Some [claim_A]\<rparr>)]"
  by (simp add: store_A_def example_defs Register_def AgentRegistration_Validate_def
      AgentStatus_IsValid_def Claim_def WorkClaim_Validate_def ClaimReason_IsValid_def
      keep_def append_slice_def Let_def)

lemma reachable_store_A: "reachable 100 store_A"
  unfolding store_A_def by (intro reachable.step reachable.init)

lemma reachable_claim_free_store_A: "reachable_claim_free 100 store_A"
  unfolding store_A_def
  by (intro reachable_claim_free.step_cf reachable_claim_free.init_cf)
     (simp_all add: claim_free_def example_defs)


text \<open>
  C1, as stated, fails: \<open>Register\<close> stores whatever claim list the registration
  carries, without the conflict scan of \<open>Claim\<close>. From the reachable registry in which
  \<open>A\<close> holds \<open>bv-1\<close>, registering \<open>B\<close> with a claim on \<open>bv-1\<close> succeeds and
  leaves two unexpired claims on the bead.
\<close>

theorem claim_invariant_counterexample:
  "reachable 100 store_A \<and> claim_invariant 100 store_A \<and>
   fst (apply_op 100 (OpRegister agent_B_with_claim) store_A) = None \<and>
   reachable 100 (snd (apply_op 100 (OpRegister agent_B_with_claim) store_A)) \<and>
   \<not> claim_invariant 100 (snd (apply_op 100 (OpRegister agent_B_with_claim) store_A))"
proof -
  have r: "reachable 100 store_A" by (rule reachable_store_A)
  then have r': "reachable 100 (snd (apply_op 100 (OpRegister agent_B_with_claim) store_A))"
    by (rule reachable.step)
  have s': "apply_op 100 (OpRegister agent_B_with_claim) store_A =
     (None, [(''A'', agent_A\<lparr>ClaimedWork := Some [claim_A]\<rparr>), (''B'', agent_B_with_claim)])"
    by (simp add: store_A_eq example_defs Register_def AgentRegistration_Validate_def
      AgentStatus_IsValid_def)
  have i: "claim_invariant 100 store_A"
    by (simp add: store_A_eq claim_invariant_def all_claims_def unexpired_claims_on_def
        claim_filter_def example_defs)
  have n: "\<not> claim_invariant 100
     [(''A'', agent_A\<lparr>ClaimedWork := Some [claim_A]\<rparr>), (''B'', agent_B_with_claim)]"
    by (simp add: claim_invariant_def all_claims_def unexpired_claims_on_def
        claim_filter_def example_defs WorkClaim_IsExpired_def)
  from r r' i n s' show ?thesis by simp
qed

text \<open>
  C1, amended: in every registry reached by calls in which \<open>Register\<close> is never given
  a registration that carries claims, each bead has at most one unexpired claim across
  all agents' claim lists; on every well-formed registry that satisfies the invariant,
  \<open>Unregister\<close>, \<open>Claim\<close>, \<open>Release\<close>, \<open>AddFileHint\<close>, \<open>RemoveFileHint\<close>,
  \<open>Heartbeat\<close> and \<open>CleanupExpired\<close>, and \<open>Register\<close> of a registration without
  claims, lead to a well-formed registry that satisfies it; and the passing of time
  keeps it.
\<close>

theorem claim_invariant_holds:
  "(reachable_claim_free now s \<longrightarrow> (\<forall>b. length (unexpired_claims_on now b s) \<le> 1)) \<and>
   (store_wf t \<and> claim_invariant now t \<and> claim_free op \<longrightarrow>
      store_wf (snd (apply_op now op t)) \<and> claim_invariant now (snd (apply_op now op t))) \<and>
   (claim_invariant now t \<and> now \<le> now' \<longrightarrow> claim_invariant now' t)"
proof -
  have "claim_invariant now s" if "reachable_claim_free now s"
    using that
  proof (induction rule: reachable_claim_free.induct)
    case (init_cf now)
    show ?case by (rule claim_invariant_NewStore)
  next
    case (tick_cf now s now')
    then show ?case using claim_invariant_later by blast
  next
    case (step_cf now s op)
    then show ?case
      using claim_invariant_apply_op reachable_claim_free_wf by blast
  qed
  then have 1: "reachable_claim_free now s \<longrightarrow> (\<forall>b. length (unexpired_claims_on now b s) \<le> 1)"
    by (simp only: claim_invariant_iff) blast
  have 2: "store_wf t \<and> claim_invariant now t \<and> claim_free op \<longrightarrow>
      store_wf (snd (apply_op now op t)) \<and> claim_invariant now (snd (apply_op now op t))"
    using store_wf_apply_op claim_invariant_apply_op by blast
  have 3: "claim_invariant now t \<and> now \<le> now' \<longrightarrow> claim_invariant now' t"
    using claim_invariant_later by blast
  from 1 2 3 show ?thesis by blast
qed

text \<open>The amended C1 at the registry in which \<open>A\<close> holds \<open>bv-1\<close> and renews it.\<close>

theorem claim_invariant_holds_witness:
  "reachable_claim_free 100 store_A \<and> (\<forall>b. length (unexpired_claims_on 100 b store_A) \<le> 1) \<and>
   store_wf store_A \<and> claim_invariant 100 store_A \<and> claim_free (OpClaim ''A'' claim_A) \<and>
   store_wf (snd (apply_op 100 (OpClaim ''A'' claim_A) store_A)) \<and>
   claim_invariant 100 (snd (apply_op 100 (OpClaim ''A'' claim_A) store_A)) \<and>
   (100::int) \<le> 200 \<and> claim_invariant 200 store_A"
proof -
  have r: "reachable_claim_free 100 store_A" by (rule reachable_claim_free_store_A)
  have w: "store_wf store_A" by (simp add: store_A_eq store_wf_def example_defs)
  have c: "claim_free (OpClaim ''A'' claim_A)" by (simp add: claim_free_def)
  have l: "(100::int) \<le> 200" by simp
  from claim_invariant_holds [of 100 store_A store_A "OpClaim ''A'' claim_A" 200] r w c l
  show ?thesis unfolding claim_invariant_iff by blast
qed

subsection \<open>Claim\<close>

lemmas validate_defs =
  AgentRegistration_Validate_def AgentStatus_IsValid_def WorkClaim_Validate_def
  ClaimReason_IsValid_def ClaimReasonImplementing_def ClaimReasonReviewing_def
  ClaimReasonTesting_def ClaimReasonDebugging_def ClaimReasonPlanning_def
  AgentStatusActive_def AgentStatusIdle_def AgentStatusInactive_def AgentStatusGone_def

lemma store_AB_eq:
  "store_AB = [(''A'', agent_A\<lparr>ClaimedWork := Some [claim_A]\<rparr>), (''B'', agent_B)]"
  by (simp add: store_AB_def store_A_eq agent_B_def example_defs Register_def validate_defs)

lemma store_wf_store_AB: "store_wf store_AB"
  by (simp add: store_AB_eq store_wf_def agent_B_def example_defs)

lemma find_conflict_other:
  assumes wf: "store_wf s" and look: "map_of s k = Some other" and ne: "k \<noteq> n"
    and h: "holds_unexpired now b other"
  shows "\<exists>holder. find_conflict now n b s = Some holder"
proof (cases "find_conflict now n b s")
  case None
  from wf look have "Name other = k" by (rule store_wf_lookup)
  moreover from look have "(k, other) \<in> set s" by (rule map_of_SomeD)
  ultimately have "\<not> holds_unexpired now b other"
    using None ne by (auto simp: find_conflict_None)
  with h show ?thesis by simp
next
  case (Some holder)
  then show ?thesis by simp
qed

lemma find_conflict_holder:
  assumes wf: "store_wf s" and f: "find_conflict now n b s = Some holder"
  shows "holder \<noteq> n \<and> (\<exists>other. map_of s holder = Some other \<and> holds_unexpired now b other)"
proof -
  from find_conflict_Some [OF f] obtain k a where in_s: "(k, a) \<in> set s"
    and nm: "Name a = holder" and ne: "holder \<noteq> n" and h: "holds_unexpired now b a"
    by auto
  from wf in_s have "Name a = k" by (auto simp: store_wf_def)
  moreover from wf in_s have "map_of s k = Some a" by (simp add: store_wf_def)
  ultimately show ?thesis using nm ne h by auto
qed

text \<open>
  C2: for a valid claim on a well-formed registry, \<open>Claim\<close> fails with the not-found
  error and no change when \<open>agentName\<close> is not registered; when it is registered and an
  agent under another name holds an unexpired claim on the same bead, it fails with the
  conflict error, which names such a holder; and otherwise it succeeds, and the
  registry it leaves differs at \<open>agentName\<close> only, whose claim list is the old one
  without its claims on the bead, followed by the new claim, and whose \<open>LastSeen\<close> is
  \<open>now\<close>.
\<close>

theorem Claim_outcomes:
  assumes wf: "store_wf s" and valid: "WorkClaim_Validate claim = None"
  shows
    "(Get agentName s = None \<longrightarrow>
        Claim now agentName claim s = (Some (AgentNotFound agentName), s)) \<and>
     (\<forall>agent. Get agentName s = Some agent \<longrightarrow>
        ((\<exists>k other. k \<noteq> agentName \<and> Get k s = Some other \<and>
                     holds_unexpired now (BeadID claim) other) \<longrightarrow>
           (\<exists>holder other.
              Claim now agentName claim s = (Some (ConflictError (BeadID claim) holder), s) \<and>
              holder \<noteq> agentName \<and> Get holder s = Some other \<and>
              holds_unexpired now (BeadID claim) other)) \<and>
        (\<not> (\<exists>k other. k \<noteq> agentName \<and> Get k s = Some other \<and>
                     holds_unexpired now (BeadID claim) other) \<longrightarrow>
           Claim now agentName claim s =
             (None,
              AList.update agentName
                (agent\<lparr>ClaimedWork :=
                         Some (filter (\<lambda>c. BeadID c \<noteq> BeadID claim) (elems (ClaimedWork agent))
                               @ [claim]),
                       LastSeen := now\<rparr>) s)))"
proof (intro conjI allI impI)
  assume "Get agentName s = None"
  with valid show "Claim now agentName claim s = (Some (AgentNotFound agentName), s)"
    by (simp add: Claim_def Get_def)
next
  fix agent
  assume look: "Get agentName s = Some agent"
    and ex: "\<exists>k other. k \<noteq> agentName \<and> Get k s = Some other \<and>
                     holds_unexpired now (BeadID claim) other"
  then obtain k other where "k \<noteq> agentName" "map_of s k = Some other"
    "holds_unexpired now (BeadID claim) other"
    by (auto simp: Get_def)
  with wf obtain holder where f: "find_conflict now agentName (BeadID claim) s = Some holder"
    using find_conflict_other by blast
  from find_conflict_holder [OF wf f] obtain other' where
    "holder \<noteq> agentName" "map_of s holder = Some other'"
    "holds_unexpired now (BeadID claim) other'"
    by blast
  moreover have "Claim now agentName claim s = (Some (ConflictError (BeadID claim) holder), s)"
    using valid look f by (simp add: Claim_def Get_def)
  ultimately show "\<exists>holder other.
              Claim now agentName claim s = (Some (ConflictError (BeadID claim) holder), s) \<and>
              holder \<noteq> agentName \<and> Get holder s = Some other \<and>
              holds_unexpired now (BeadID claim) other"
    by (auto simp: Get_def)
next
  fix agent
  assume look: "Get agentName s = Some agent"
    and nex: "\<not> (\<exists>k other. k \<noteq> agentName \<and> Get k s = Some other \<and>
                     holds_unexpired now (BeadID claim) other)"
  have f: "find_conflict now agentName (BeadID claim) s = None"
  proof (cases "find_conflict now agentName (BeadID claim) s")
    case None then show ?thesis .
  next
    case (Some holder)
    from find_conflict_holder [OF wf Some] nex show ?thesis
      by (auto simp: Get_def)
  qed
  show "Claim now agentName claim s =
             (None,
              AList.update agentName
                (agent\<lparr>ClaimedWork :=
                         Some (filter (\<lambda>c. BeadID c \<noteq> BeadID claim) (elems (ClaimedWork agent))
                               @ [claim]),
                       LastSeen := now\<rparr>) s)"
    using valid look f by (simp add: Claim_def Get_def Let_def append_slice_def)
qed

text \<open>
  C2 at three calls on the registry of \<open>A\<close> (holding \<open>bv-1\<close>) and \<open>B\<close>: an unregistered
  claimant, \<open>B\<close> claiming \<open>bv-1\<close>, and \<open>A\<close> renewing its own claim.
\<close>

theorem Claim_outcomes_witness:
  "store_wf store_AB \<and> WorkClaim_Validate claim_B = None \<and>
   WorkClaim_Validate claim_A_renewed = None \<and>
   Get ''Z'' store_AB = None \<and>
   Claim 150 ''Z'' claim_B store_AB = (Some (AgentNotFound ''Z''), store_AB) \<and>
   Get ''B'' store_AB = Some agent_B \<and>
   Get ''A'' store_AB = Some (agent_A\<lparr>ClaimedWork := Some [claim_A]\<rparr>) \<and>
   holds_unexpired 150 (BeadID claim_B) (agent_A\<lparr>ClaimedWork := Some [claim_A]\<rparr>) \<and>
   Claim 150 ''B'' claim_B store_AB = (Some (ConflictError ''bv-1'' ''A''), store_AB) \<and>
   \<not> holds_unexpired 150 (BeadID claim_A_renewed) agent_B \<and>
   Claim 150 ''A'' claim_A_renewed store_AB =
     (None, [(''A'', agent_A\<lparr>ClaimedWork := Some [claim_A_renewed], LastSeen := 150\<rparr>),
             (''B'', agent_B)])"
proof -
  have wf: "store_wf store_AB" by (rule store_wf_store_AB)
  have vB: "WorkClaim_Validate claim_B = None"
    by (simp add: example_defs validate_defs)
  have vA: "WorkClaim_Validate claim_A_renewed = None"
    by (simp add: claim_A_renewed_def example_defs validate_defs)
  have gZ: "Get ''Z'' store_AB = None" by (simp add: Get_def store_AB_eq)
  have gB: "Get ''B'' store_AB = Some agent_B" by (simp add: Get_def store_AB_eq)
  have gA: "Get ''A'' store_AB = Some (agent_A\<lparr>ClaimedWork := Some [claim_A]\<rparr>)"
    by (simp add: Get_def store_AB_eq)
  have hA: "holds_unexpired 150 (BeadID claim_B) (agent_A\<lparr>ClaimedWork := Some [claim_A]\<rparr>)"
    by (simp add: holds_unexpired_def example_defs WorkClaim_IsExpired_def)
  have nB: "\<not> holds_unexpired 150 (BeadID claim_A_renewed) agent_B"
    by (simp add: holds_unexpired_def agent_B_def example_defs)
  have others: "\<not> (\<exists>k other. k \<noteq> ''A'' \<and> Get k store_AB = Some other \<and>
                     holds_unexpired 150 (BeadID claim_A_renewed) other)"
    using nB by (auto simp: Get_def store_AB_eq split: if_splits)
  have 1: "Claim 150 ''Z'' claim_B store_AB = (Some (AgentNotFound ''Z''), store_AB)"
    using Claim_outcomes [OF wf vB, of "''Z''" 150] gZ by simp
  have "\<exists>k other. k \<noteq> ''B'' \<and> Get k store_AB = Some other \<and>
                     holds_unexpired 150 (BeadID claim_B) other"
    using gA hA by (intro exI [of _ "''A''"] exI [of _ "agent_A\<lparr>ClaimedWork := Some [claim_A]\<rparr>"]) simp
  with Claim_outcomes [OF wf vB, of "''B''" 150] gB
  obtain holder other where c: "Claim 150 ''B'' claim_B store_AB =
       (Some (ConflictError (BeadID claim_B) holder), store_AB)"
    and h: "holder \<noteq> ''B''" "Get holder store_AB = Some other" by blast
  from h have "holder = ''A''" by (auto simp: Get_def store_AB_eq split: if_splits)
  with c have 2: "Claim 150 ''B'' claim_B store_AB = (Some (ConflictError ''bv-1'' ''A''), store_AB)"
    by (simp add: example_defs)
  have 3: "Claim 150 ''A'' claim_A_renewed store_AB =
     (None, [(''A'', agent_A\<lparr>ClaimedWork := Some [claim_A_renewed], LastSeen := 150\<rparr>),
             (''B'', agent_B)])"
    using Claim_outcomes [OF wf vA, of "''A''" 150] gA others
    by (simp add: store_AB_eq claim_A_renewed_def example_defs)
  from wf vB vA gZ gB gA hA nB 1 2 3 show ?thesis by blast
qed

subsection \<open>Failing operations\<close>

text \<open>
  C10: a call of \<open>Claim\<close>, \<open>Release\<close>, \<open>Heartbeat\<close>, \<open>AddFileHint\<close> or
  \<open>RemoveFileHint\<close> that returns an error (of any kind) leaves the registry as it was:
  no agent's claims, hints, status or last-heartbeat time change.
\<close>

theorem failed_operation_keeps_registry:
  "(fst (Claim now n c s) \<noteq> None \<longrightarrow> snd (Claim now n c s) = s) \<and>
   (fst (Release now n b s) \<noteq> None \<longrightarrow> snd (Release now n b s) = s) \<and>
   (fst (Heartbeat now n s) \<noteq> None \<longrightarrow> snd (Heartbeat now n s) = s) \<and>
   (fst (AddFileHint now n h s) \<noteq> None \<longrightarrow> snd (AddFileHint now n h s) = s) \<and>
   (fst (RemoveFileHint now n p s) \<noteq> None \<longrightarrow> snd (RemoveFileHint now n p s) = s)"
proof (intro conjI impI)
  assume "fst (Claim now n c s) \<noteq> None"
  then show "snd (Claim now n c s) = s"
    by (auto simp: Claim_def Let_def split: option.splits)
next
  assume "fst (Release now n b s) \<noteq> None"
  then show "snd (Release now n b s) = s"
    by (auto simp: Release_def Let_def split: option.splits if_splits)
next
  assume "fst (Heartbeat now n s) \<noteq> None"
  then show "snd (Heartbeat now n s) = s"
    by (auto simp: Heartbeat_def split: option.splits)
next
  assume "fst (AddFileHint now n h s) \<noteq> None"
  then show "snd (AddFileHint now n h s) = s"
    by (auto simp: AddFileHint_def split: option.splits)
next
  assume "fst (RemoveFileHint now n p s) \<noteq> None"
  then show "snd (RemoveFileHint now n p s) = s"
    by (auto simp: RemoveFileHint_def split: option.splits)
qed

text \<open>
  C10 on the registry of \<open>A\<close> (holding \<open>bv-1\<close>) and \<open>B\<close>: every operation called for
  the unregistered \<open>Z\<close>, a claim that fails validation, \<open>B\<close> claiming \<open>bv-1\<close>, and \<open>B\<close>
  releasing a claim it does not hold.
\<close>

theorem failed_operation_keeps_registry_witness:
  "Claim 150 ''Z'' claim_B store_AB = (Some (AgentNotFound ''Z''), store_AB) \<and>
   Release 150 ''Z'' ''bv-1'' store_AB = (Some (AgentNotFound ''Z''), store_AB) \<and>
   Heartbeat 150 ''Z'' store_AB = (Some (AgentNotFound ''Z''), store_AB) \<and>
   AddFileHint 150 ''Z'' (NewFileHint 150 ''main.go'' ''Z'' ''bv-1'') store_AB
     = (Some (AgentNotFound ''Z''), store_AB) \<and>
   RemoveFileHint 150 ''Z'' ''main.go'' store_AB = (Some (AgentNotFound ''Z''), store_AB) \<and>
   Claim 150 ''B'' (claim_B\<lparr>BeadID := []\<rparr>) store_AB
     = (Some (ValidationError ''bead ID cannot be empty''), store_AB) \<and>
   Claim 150 ''B'' claim_B store_AB = (Some (ConflictError ''bv-1'' ''A''), store_AB) \<and>
   Release 150 ''B'' ''bv-1'' store_AB = (Some (ClaimNotFound ''bv-1''), store_AB)"
proof -
  let ?h = "NewFileHint 150 ''main.go'' ''Z'' ''bv-1''"
  have f1: "fst (Claim 150 ''Z'' claim_B store_AB) = Some (AgentNotFound ''Z'')"
    by (simp add: Claim_def store_AB_eq example_defs validate_defs)
  have f2: "fst (Release 150 ''Z'' ''bv-1'' store_AB) = Some (AgentNotFound ''Z'')"
    by (simp add: Release_def store_AB_eq)
  have f3: "fst (Heartbeat 150 ''Z'' store_AB) = Some (AgentNotFound ''Z'')"
    by (simp add: Heartbeat_def store_AB_eq)
  have f4: "fst (AddFileHint 150 ''Z'' ?h store_AB) = Some (AgentNotFound ''Z'')"
    by (simp add: AddFileHint_def store_AB_eq)
  have f5: "fst (RemoveFileHint 150 ''Z'' ''main.go'' store_AB) = Some (AgentNotFound ''Z'')"
    by (simp add: RemoveFileHint_def store_AB_eq)
  have f6: "fst (Claim 150 ''B'' (claim_B\<lparr>BeadID := []\<rparr>) store_AB)
              = Some (ValidationError ''bead ID cannot be empty'')"
    by (simp add: Claim_def WorkClaim_Validate_def)
  have f7: "fst (Claim 150 ''B'' claim_B store_AB) = Some (ConflictError ''bv-1'' ''A'')"
    by (simp add: Claim_def store_AB_eq agent_B_def example_defs validate_defs
        holds_unexpired_def WorkClaim_IsExpired_def)
  have f8: "fst (Release 150 ''B'' ''bv-1'' store_AB) = Some (ClaimNotFound ''bv-1'')"
    by (simp add: Release_def store_AB_eq agent_B_def example_defs Let_def)
  note z = failed_operation_keeps_registry
    [of 150 "''Z''" claim_B store_AB "''bv-1''" ?h "''main.go''"]
  note b1 = failed_operation_keeps_registry
    [of 150 "''B''" "claim_B\<lparr>BeadID := []\<rparr>" store_AB "''bv-1''" ?h "''main.go''"]
  note b2 = failed_operation_keeps_registry
    [of 150 "''B''" claim_B store_AB "''bv-1''" ?h "''main.go''"]
  from z f1 f2 f3 f4 f5 have
    "snd (Claim 150 ''Z'' claim_B store_AB) = store_AB"
    "snd (Release 150 ''Z'' ''bv-1'' store_AB) = store_AB"
    "snd (Heartbeat 150 ''Z'' store_AB) = store_AB"
    "snd (AddFileHint 150 ''Z'' ?h store_AB) = store_AB"
    "snd (RemoveFileHint 150 ''Z'' ''main.go'' store_AB) = store_AB"
    by simp_all
  moreover from b1 f6 have "snd (Claim 150 ''B'' (claim_B\<lparr>BeadID := []\<rparr>) store_AB) = store_AB"
    by simp
  moreover from b2 f7 f8 have
    "snd (Claim 150 ''B'' claim_B store_AB) = store_AB"
    "snd (Release 150 ''B'' ''bv-1'' store_AB) = store_AB"
    by simp_all
  ultimately show ?thesis
    using f1 f2 f3 f4 f5 f6 f7 f8 by (simp add: prod_eq_iff)
qed

subsection \<open>Register\<close>

text \<open>
  C3, as stated, fails for a registration whose claim list is empty but not nil, which
  is what \<open>NewAgentRegistration\<close> makes: \<open>A\<close> holds \<open>bv-1\<close>, registers again with a
  fresh registration that carries no claims, and its claim on \<open>bv-1\<close> is gone.
\<close>

theorem Register_existing_counterexample:
  "AgentRegistration_Validate agent_A_again = None \<and>
   elems (ClaimedWork agent_A_again) = [] \<and>
   map_option (\<lambda>a. elems (ClaimedWork a)) (Get ''A'' store_A) = Some [claim_A] \<and>
   fst (Register 150 agent_A_again store_A) = None \<and>
   map_option (\<lambda>a. elems (ClaimedWork a)) (Get ''A'' (snd (Register 150 agent_A_again store_A)))
     = Some []"
  by (simp add: agent_A_again_def store_A_eq Get_def Register_def example_defs validate_defs)

text \<open>
  C3, amended: when \<open>Register\<close> is called with a valid registration whose name already
  exists in the store, it succeeds; the stored record is the incoming one with the
  existing agent's start time, with the existing agent's claims when the incoming claim
  list is nil and the incoming list otherwise (even when it is empty), likewise for
  the hints, and with last-heartbeat \<open>now\<close>; it is filed under its name and no other
  entry changes.
\<close>

theorem Register_existing:
  assumes valid: "AgentRegistration_Validate agent = None"
    and look: "Get (Name agent) s = Some existing"
  shows
    "Register now agent s =
       (None,
        AList.update (Name agent)
          (agent\<lparr>StartedAt := StartedAt existing,
                 ClaimedWork := (if ClaimedWork agent = None then ClaimedWork existing
                                 else ClaimedWork agent),
                 FileHints := (if FileHints agent = None then FileHints existing
                               else FileHints agent),
                 LastSeen := now\<rparr>) s) \<and>
     Get (Name agent) (snd (Register now agent s)) =
       Some (agent\<lparr>StartedAt := StartedAt existing,
                 ClaimedWork := (if ClaimedWork agent = None then ClaimedWork existing
                                 else ClaimedWork agent),
                 FileHints := (if FileHints agent = None then FileHints existing
                               else FileHints agent),
                 LastSeen := now\<rparr>) \<and>
     (\<forall>k. k \<noteq> Name agent \<longrightarrow> Get k (snd (Register now agent s)) = Get k s)"
proof -
  have r: "Register now agent s =
       (None,
        AList.update (Name agent)
          (agent\<lparr>StartedAt := StartedAt existing,
                 ClaimedWork := (if ClaimedWork agent = None then ClaimedWork existing
                                 else ClaimedWork agent),
                 FileHints := (if FileHints agent = None then FileHints existing
                               else FileHints agent),
                 LastSeen := now\<rparr>) s)"
    using valid look by (simp add: Register_def Get_def Let_def)
  then show ?thesis by (simp add: Get_def update_conv')
qed

text \<open>
  The amended C3 on the registry in which \<open>A\<close> holds \<open>bv-1\<close>: a registration with nil
  lists keeps the claim, and the start time stays 100.
\<close>

theorem Register_existing_witness:
  "AgentRegistration_Validate agent_A_nil = None \<and>
   Get (Name agent_A_nil) store_A = Some (agent_A\<lparr>ClaimedWork := Some [claim_A]\<rparr>) \<and>
   Register 200 agent_A_nil store_A =
     (None, [(''A'', agent_A\<lparr>ClaimedWork := Some [claim_A], LastSeen := 200\<rparr>)]) \<and>
   StartedAt agent_A_nil = 150 \<and> StartedAt agent_A = 100 \<and>
   ''B'' \<noteq> Name agent_A_nil \<and>
   Get ''B'' (snd (Register 200 agent_A_nil store_A)) = Get ''B'' store_A"
proof -
  have v: "AgentRegistration_Validate agent_A_nil = None"
    by (simp add: agent_A_nil_def agent_A_again_def example_defs validate_defs)
  have g: "Get (Name agent_A_nil) store_A = Some (agent_A\<lparr>ClaimedWork := Some [claim_A]\<rparr>)"
    by (simp add: agent_A_nil_def agent_A_again_def store_A_eq Get_def example_defs)
  have n: "Name agent_A_nil = ''A''"
    by (simp add: agent_A_nil_def agent_A_again_def example_defs)
  note R = Register_existing [OF v g, of 200]
  have e: "agent_A_nil\<lparr>StartedAt := StartedAt (agent_A\<lparr>ClaimedWork := Some [claim_A]\<rparr>),
                 ClaimedWork := (if ClaimedWork agent_A_nil = None
                                 then ClaimedWork (agent_A\<lparr>ClaimedWork := Some [claim_A]\<rparr>)
                                 else ClaimedWork agent_A_nil),
                 FileHints := (if FileHints agent_A_nil = None
                               then FileHints (agent_A\<lparr>ClaimedWork := Some [claim_A]\<rparr>)
                               else FileHints agent_A_nil),
                 LastSeen := 200\<rparr> = agent_A\<lparr>ClaimedWork := Some [claim_A], LastSeen := 200\<rparr>"
    by (simp add: agent_A_nil_def agent_A_again_def example_defs)
  have u: "AList.update ''A'' (agent_A\<lparr>ClaimedWork := Some [claim_A], LastSeen := 200\<rparr>) store_A
      = [(''A'', agent_A\<lparr>ClaimedWork := Some [claim_A], LastSeen := 200\<rparr>)]"
    by (simp add: store_A_eq)
  from R [THEN conjunct1] have r': "Register 200 agent_A_nil store_A =
     (None, [(''A'', agent_A\<lparr>ClaimedWork := Some [claim_A], LastSeen := 200\<rparr>)])"
    unfolding e n u .
  from R [THEN conjunct2, THEN conjunct2]
  have o: "\<forall>k. k \<noteq> ''A'' \<longrightarrow> Get k (snd (Register 200 agent_A_nil store_A)) = Get k store_A"
    unfolding n .
  have st: "StartedAt agent_A_nil = 150" "StartedAt agent_A = 100"
    by (simp_all add: agent_A_nil_def agent_A_again_def example_defs)
  from v g r' st o n show ?thesis by simp
qed

subsection \<open>CleanupExpired\<close>

lemma Since_less_iff:
  "minDuration < d \<Longrightarrow> d \<le> maxDuration \<Longrightarrow> Since now t < d \<longleftrightarrow> now - t < d"
  by (auto simp: Since_def Sub_def Let_def)

lemma less_Since_iff:
  "minDuration \<le> d \<Longrightarrow> d < maxDuration \<Longrightarrow> d < Since now t \<longleftrightarrow> d < now - t"
  by (auto simp: Since_def Sub_def Let_def)

lemma IsStale_default: "IsStale a now DefaultStaleThreshold \<longleftrightarrow> 3600000000000 < now - LastSeen a"
  unfolding IsStale_def
  by (subst less_Since_iff)
     (simp_all add: DefaultStaleThreshold_def Hour_def Minute_def minDuration_def maxDuration_def)

lemma IsActive_default:
  "IsActive a now DefaultInactivityThreshold \<longleftrightarrow> now - LastSeen a < 1800000000000"
  unfolding IsActive_def
  by (subst Since_less_iff)
     (simp_all add: DefaultInactivityThreshold_def Minute_def minDuration_def maxDuration_def)

lemma Get_CleanupExpired:
  "Get k (CleanupExpired now s) = map_option (cleanup_agent now) (Get k s)"
  by (induction s) (auto simp: Get_def CleanupExpired_def)

text \<open>
  C7, as stated, fails at the boundary: \<open>CleanupExpired\<close> sets \<open>Inactive\<close> when the agent
  is not \<open>IsActive\<close>, and \<open>IsActive\<close> is \<open>time.Since(LastSeen) < timeout\<close>. An active
  agent swept exactly 30 minutes after its last heartbeat, which does not exceed the
  threshold, becomes \<open>Inactive\<close>.
\<close>

theorem CleanupExpired_counterexample:
  "LastSeen agent_C = 0 \<and> Status agent_C = AgentStatusActive \<and>
   \<not> (DefaultInactivityThreshold < Since DefaultInactivityThreshold (LastSeen agent_C)) \<and>
   map_option Status (Get ''C'' (CleanupExpired DefaultInactivityThreshold [(''C'', agent_C)]))
     = Some AgentStatusInactive"
  unfolding Get_CleanupExpired
  by (simp add: Get_def cleanup_agent_def agent_C_def IsStale_def IsActive_def
      Since_def Sub_def DefaultInactivityThreshold_def DefaultStaleThreshold_def Hour_def Minute_def
      minDuration_def maxDuration_def Let_def)

text \<open>
  C7, amended: \<open>CleanupExpired\<close> keeps the keys of the registry (no agent is deleted,
  none is added) and, in every agent, keeps exactly the claims and the hints whose
  expiry time has not passed, in their order; it sets the status to \<open>Gone\<close> when the
  time since the last heartbeat exceeds one hour, otherwise to \<open>Inactive\<close> when that
  time is at least 30 minutes, and otherwise leaves the status as it was; the
  other fields keep their values.
\<close>

theorem CleanupExpired_effect:
  "map fst (CleanupExpired now s) = map fst s \<and>
   (Get k s = None \<longrightarrow> Get k (CleanupExpired now s) = None) \<and>
   (\<forall>a. Get k s = Some a \<longrightarrow>
      (\<exists>a'. Get k (CleanupExpired now s) = Some a' \<and>
         elems (ClaimedWork a') = filter (\<lambda>c. \<not> ExpiresAt c < now) (elems (ClaimedWork a)) \<and>
         elems (FileHints a') = filter (\<lambda>h. \<not> HintExpiresAt h < now) (elems (FileHints a)) \<and>
         Status a' =
           (if 60 * 60 * 1000000000 < now - LastSeen a then AgentStatusGone
            else if 30 * 60 * 1000000000 \<le> now - LastSeen a then AgentStatusInactive
            else Status a) \<and>
         Name a' = Name a \<and> Model a' = Model a \<and> Program a' = Program a \<and>
         StartedAt a' = StartedAt a \<and> LastSeen a' = LastSeen a \<and> Metadata a' = Metadata a))"
proof (intro conjI impI allI)
  show "map fst (CleanupExpired now s) = map fst s" by simp
next
  assume "Get k s = None"
  then show "Get k (CleanupExpired now s) = None" by (simp add: Get_CleanupExpired)
next
  fix a assume g: "Get k s = Some a"
  let ?a' = "cleanup_agent now a"
  have "Get k (CleanupExpired now s) = Some ?a'" using g by (simp add: Get_CleanupExpired)
  moreover have "elems (ClaimedWork ?a') = filter (\<lambda>c. \<not> ExpiresAt c < now) (elems (ClaimedWork a))"
    by (simp add: cleanup_agent_def Let_def WorkClaim_IsExpired_def)
  moreover have "elems (FileHints ?a') = filter (\<lambda>h. \<not> HintExpiresAt h < now) (elems (FileHints a))"
    by (simp add: cleanup_agent_def Let_def FileHint_IsExpired_def)
  moreover have "Status ?a' =
           (if 60 * 60 * 1000000000 < now - LastSeen a then AgentStatusGone
            else if 30 * 60 * 1000000000 \<le> now - LastSeen a then AgentStatusInactive
            else Status a)"
    by (simp add: cleanup_agent_def Let_def IsStale_default IsActive_default not_less)
  moreover have "Name ?a' = Name a \<and> Model ?a' = Model a \<and> Program ?a' = Program a \<and>
         StartedAt ?a' = StartedAt a \<and> LastSeen ?a' = LastSeen a \<and> Metadata ?a' = Metadata a"
    by (simp add: cleanup_agent_def Let_def)
  ultimately show "\<exists>a'. Get k (CleanupExpired now s) = Some a' \<and>
         elems (ClaimedWork a') = filter (\<lambda>c. \<not> ExpiresAt c < now) (elems (ClaimedWork a)) \<and>
         elems (FileHints a') = filter (\<lambda>h. \<not> HintExpiresAt h < now) (elems (FileHints a)) \<and>
         Status a' =
           (if 60 * 60 * 1000000000 < now - LastSeen a then AgentStatusGone
            else if 30 * 60 * 1000000000 \<le> now - LastSeen a then AgentStatusInactive
            else Status a) \<and>
         Name a' = Name a \<and> Model a' = Model a \<and> Program a' = Program a \<and>
         StartedAt a' = StartedAt a \<and> LastSeen a' = LastSeen a \<and> Metadata a' = Metadata a"
    by blast
qed

text \<open>
  The amended C7 on the registry of \<open>C\<close> alone, swept 61 minutes after its last
  heartbeat: the expired claim and hint go, the live ones stay, the status is \<open>Gone\<close>;
  an unknown name stays unknown.
\<close>

theorem CleanupExpired_effect_witness:
  "Get ''Z'' [(''C'', agent_C)] = None \<and>
   Get ''Z'' (CleanupExpired (61 * Minute) [(''C'', agent_C)]) = None \<and>
   Get ''C'' [(''C'', agent_C)] = Some agent_C \<and>
   (\<exists>a'. Get ''C'' (CleanupExpired (61 * Minute) [(''C'', agent_C)]) = Some a' \<and>
      elems (ClaimedWork a') = [live_claim] \<and> elems (FileHints a') = [live_hint] \<and>
      Status a' = AgentStatusGone \<and> LastSeen a' = 0)"
proof -
  have gz: "Get ''Z'' [(''C'', agent_C)] = None" by (simp add: Get_def)
  have gc: "Get ''C'' [(''C'', agent_C)] = Some agent_C" by (simp add: Get_def)
  from CleanupExpired_effect [of "61 * Minute" "[(''C'', agent_C)]" "''Z''"] gz
  have 1: "Get ''Z'' (CleanupExpired (61 * Minute) [(''C'', agent_C)]) = None" by blast
  from CleanupExpired_effect [of "61 * Minute" "[(''C'', agent_C)]" "''C''"] gc
  obtain a' where g': "Get ''C'' (CleanupExpired (61 * Minute) [(''C'', agent_C)]) = Some a'"
    and c: "elems (ClaimedWork a') =
              filter (\<lambda>c. \<not> ExpiresAt c < 61 * Minute) (elems (ClaimedWork agent_C))"
    and h: "elems (FileHints a') =
              filter (\<lambda>h. \<not> HintExpiresAt h < 61 * Minute) (elems (FileHints agent_C))"
    and st: "Status a' =
           (if 60 * 60 * 1000000000 < 61 * Minute - LastSeen agent_C then AgentStatusGone
            else if 30 * 60 * 1000000000 \<le> 61 * Minute - LastSeen agent_C then AgentStatusInactive
            else Status agent_C)"
    and ls: "LastSeen a' = LastSeen agent_C"
    by blast
  from c have c': "elems (ClaimedWork a') = [live_claim]"
    by (simp add: agent_C_def old_claim_def live_claim_def Minute_def Hour_def)
  from h have h': "elems (FileHints a') = [live_hint]"
    by (simp add: agent_C_def old_hint_def live_hint_def Minute_def Hour_def)
  from st have st': "Status a' = AgentStatusGone"
    by (simp add: agent_C_def Minute_def)
  from ls have ls': "LastSeen a' = 0" by (simp add: agent_C_def)
  from gz gc 1 g' c' h' st' ls' show ?thesis by blast
qed

subsection \<open>Expired claims\<close>

lemma listed_update_other: "n \<noteq> k \<Longrightarrow> listed k c (AList.update n a s) = listed k c s"
  by (simp add: listed_def Get_def update_conv')

lemma listed_update_same:
  "listed k c (AList.update k a s) \<longleftrightarrow> c \<in> set (elems (ClaimedWork a))"
  by (simp add: listed_def Get_def update_conv')

lemma listed_delete_other: "n \<noteq> k \<Longrightarrow> listed k c (AList.delete n s) = listed k c s"
  by (simp add: listed_def Get_def delete_conv')

lemma listedD: "listed k c s \<Longrightarrow> \<exists>a. map_of s k = Some a \<and> c \<in> set (elems (ClaimedWork a))"
  by (auto simp: listed_def Get_def split: option.splits)

lemma listed_stays:
  assumes l: "listed k c s" and nr: "\<not> may_remove now k c op"
  shows "listed k c (snd (apply_op now op s))"
proof (cases op)
  case (OpRegister agent)
  from listedD [OF l] obtain a where a: "map_of s k = Some a" "c \<in> set (elems (ClaimedWork a))"
    by blast
  show ?thesis
  proof (cases "Name agent = k")
    case True
    with nr OpRegister have "ClaimedWork agent = None" by simp
    with a True l show ?thesis
      unfolding OpRegister
      by (auto simp: Register_def Let_def listed_update_same split: option.splits)
  next
    case False
    with l show ?thesis
      unfolding OpRegister
      by (auto simp: Register_def Let_def listed_update_other split: option.splits)
  qed
next
  case (OpUnregister name)
  with nr have "name \<noteq> k" by simp
  with l show ?thesis
    unfolding OpUnregister
    by (auto simp: Unregister_def listed_delete_other split: option.splits)
next
  case (OpClaim n claim)
  from listedD [OF l] obtain a where a: "map_of s k = Some a" "c \<in> set (elems (ClaimedWork a))"
    by blast
  show ?thesis
  proof (cases "n = k")
    case True
    with nr OpClaim have "BeadID claim \<noteq> BeadID c" by simp
    with a True l show ?thesis
      unfolding OpClaim
      by (auto simp: Claim_def Let_def listed_update_same split: option.splits)
  next
    case False
    with l show ?thesis
      unfolding OpClaim
      by (auto simp: Claim_def Let_def listed_update_other split: option.splits)
  qed
next
  case (OpRelease n b)
  from listedD [OF l] obtain a where a: "map_of s k = Some a" "c \<in> set (elems (ClaimedWork a))"
    by blast
  show ?thesis
  proof (cases "n = k")
    case True
    with nr OpRelease have "b \<noteq> BeadID c" by simp
    with a True l show ?thesis
      unfolding OpRelease
      by (auto simp: Release_def Let_def listed_update_same split: option.splits)
  next
    case False
    with l show ?thesis
      unfolding OpRelease
      by (auto simp: Release_def Let_def listed_update_other split: option.splits)
  qed
next
  case (OpAddFileHint n h)
  from listedD [OF l] obtain a where a: "map_of s k = Some a" "c \<in> set (elems (ClaimedWork a))"
    by blast
  with l show ?thesis
    unfolding OpAddFileHint
    by (cases "n = k")
       (auto simp: AddFileHint_def listed_update_same listed_update_other split: option.splits)
next
  case (OpRemoveFileHint n p)
  from listedD [OF l] obtain a where a: "map_of s k = Some a" "c \<in> set (elems (ClaimedWork a))"
    by blast
  with l show ?thesis
    unfolding OpRemoveFileHint
    by (cases "n = k")
       (auto simp: RemoveFileHint_def listed_update_same listed_update_other split: option.splits)
next
  case (OpHeartbeat n)
  from listedD [OF l] obtain a where a: "map_of s k = Some a" "c \<in> set (elems (ClaimedWork a))"
    by blast
  with l show ?thesis
    unfolding OpHeartbeat
    by (cases "n = k")
       (auto simp: Heartbeat_def listed_update_same listed_update_other split: option.splits)
next
  case OpCleanupExpired
  from listedD [OF l] obtain a where a: "map_of s k = Some a" "c \<in> set (elems (ClaimedWork a))"
    by blast
  from nr OpCleanupExpired have "\<not> WorkClaim_IsExpired c now" by simp
  with a show ?thesis
    unfolding OpCleanupExpired
    by (simp add: listed_def Get_CleanupExpired) (simp add: Get_def cleanup_agent_def Let_def)
qed

lemma GetAllClaims_unexpired:
  "c \<in> set (GetAllClaims now s) \<Longrightarrow> \<not> WorkClaim_IsExpired c now"
  by (auto simp: GetAllClaims_def)

lemma GetClaimHolder_Some:
  "GetClaimHolder now b s = Some a \<Longrightarrow> a \<in> set (ListAgents s) \<and> holds_unexpired now b a"
  unfolding GetClaimHolder_def ListAgents_def
  by (auto simp: find_Some_iff)

lemma listed_ListAgents:
  "listed k c s \<Longrightarrow> \<exists>a \<in> set (ListAgents s). c \<in> set (elems (ClaimedWork a))"
  by (auto simp: ListAgents_def dest!: listedD map_of_SomeD intro: rev_bexI)

lemma not_listed_Release:
  assumes "fst (Release now k (BeadID c) s) = None"
  shows "\<not> listed k c (snd (Release now k (BeadID c) s))"
  using assms
  by (auto simp: Release_def Let_def listed_update_same split: option.splits if_splits)

lemma not_listed_CleanupExpired:
  "WorkClaim_IsExpired c now \<Longrightarrow> \<not> listed k c (CleanupExpired now s)"
  by (auto simp: listed_def Get_CleanupExpired cleanup_agent_def Let_def split: option.splits)

lemma GetClaimHolder_None:
  assumes "\<forall>c \<in> set (all_claims s). BeadID c = b \<longrightarrow> WorkClaim_IsExpired c now"
  shows "GetClaimHolder now b s = None"
proof -
  have "\<not> holds_unexpired now b a" if "a \<in> set (map snd s)" for a
  proof
    assume "holds_unexpired now b a"
    then obtain c where c: "c \<in> set (elems (ClaimedWork a))" "BeadID c = b"
      "\<not> WorkClaim_IsExpired c now"
      by (auto simp: holds_unexpired_def)
    from that obtain k where "(k, a) \<in> set s" by auto
    with c(1) have "c \<in> set (all_claims s)"
      unfolding all_claims_def by (force intro: bexI [of _ "(k, a)"])
    with assms c show False by blast
  qed
  then show ?thesis by (simp add: GetClaimHolder_def find_None_iff)
qed

lemma late_eq: "late = 1860000000100"
  by (simp add: late_def Minute_def)

lemma listed_claim_A: "listed ''A'' claim_A store_AB"
  by (simp add: listed_def Get_def store_AB_eq)

lemma expired_claim_A: "WorkClaim_IsExpired claim_A late"
  by (simp add: WorkClaim_IsExpired_def late_eq example_defs)

lemma GetAllClaims_iff:
  "c \<in> set (GetAllClaims now s) \<longleftrightarrow> c \<in> set (all_claims s) \<and> \<not> WorkClaim_IsExpired c now"
  by (auto simp: GetAllClaims_def all_claims_def)

lemma GetClaimHolder_None_iff:
  "GetClaimHolder now b s = None \<longleftrightarrow>
     \<not> (\<exists>r \<in> set (ListAgents s). \<exists>c \<in> set (elems (ClaimedWork r)).
           BeadID c = b \<and> \<not> WorkClaim_IsExpired c now)"
  by (simp add: GetClaimHolder_def ListAgents_def find_None_iff holds_unexpired_def)

lemma GetClaimHolder_first:
  "GetClaimHolder now b s =
     find (\<lambda>r. \<exists>c \<in> set (elems (ClaimedWork r)). BeadID c = b \<and> \<not> ExpiresAt c < now)
       (ListAgents s)"
proof -
  have "holds_unexpired now b =
        (\<lambda>r. \<exists>c \<in> set (elems (ClaimedWork r)). BeadID c = b \<and> \<not> ExpiresAt c < now)"
    by (rule ext) (simp add: holds_unexpired_def WorkClaim_IsExpired_def)
  then show ?thesis by (simp add: GetClaimHolder_def ListAgents_def)
qed

lemma listed_stays_call:
  assumes "listed k c s" and "\<not> call_may_remove now k c call"
  shows "listed k c (snd (apply_call now call s))"
proof (cases call)
  case (Mutation op)
  with assms show ?thesis by (simp add: listed_stays)
next
  case (LoadFrom unmarshal snap)
  with assms(2) show ?thesis by simp
qed

lemma not_listed_Unregister:
  "fst (Unregister k s) = None \<Longrightarrow> \<not> listed k c (snd (Unregister k s))"
  by (auto simp: Unregister_def listed_def Get_def delete_conv' split: option.splits)

lemma not_listed_Claim:
  assumes "fst (Claim now k claim s) = None" and "BeadID claim = BeadID c" and "claim \<noteq> c"
  shows "\<not> listed k c (snd (Claim now k claim s))"
  using assms
  by (auto simp: Claim_def Let_def listed_update_same split: option.splits)

lemma not_listed_Register:
  assumes "fst (Register now agent s) = None" and "Name agent = k"
    and "ClaimedWork agent \<noteq> None" and "c \<notin> set (elems (ClaimedWork agent))"
  shows "\<not> listed k c (snd (Register now agent s))"
  using assms
  by (auto simp: Register_def Let_def listed_update_same split: option.splits)

lemma Load_replaces: "Load unmarshal file s = Load unmarshal file []"
  by (simp add: Load_def)

lemma not_listed_Load_missing: "\<not> listed k c (snd (Load unmarshal None s))"
  by (simp add: Load_def listed_def Get_def)

lemma holder_agent_C:
  "GetClaimHolder (61 * Minute) ''bv-new'' [(''C'', agent_C)] = Some agent_C"
  by (simp add: GetClaimHolder_def holds_unexpired_def agent_C_def old_claim_def live_claim_def
      WorkClaim_IsExpired_def Minute_def Hour_def)

lemma expired_old_claim: "WorkClaim_IsExpired old_claim (61 * Minute)"
  by (simp add: WorkClaim_IsExpired_def old_claim_def Minute_def)

text \<open>
  C6, as stated, fails in two places. Calls other than \<open>Release\<close> and \<open>CleanupExpired\<close>
  remove an expired claim: after the claim of \<open>A\<close> on \<open>bv-1\<close> has expired, \<open>A\<close>
  claiming \<open>bv-1\<close> again replaces it, unregistering \<open>A\<close> drops it, and so does \<open>Load\<close>
  (here with no snapshot file). And the registration that \<open>GetClaimHolder\<close> returns
  is the holder's whole record: asked for \<open>bv-new\<close>, which \<open>C\<close> holds, it returns a
  registration that lists the expired claim of \<open>C\<close> on \<open>bv-old\<close>.
\<close>

theorem expired_claim_counterexample:
  "listed ''A'' claim_A store_AB \<and> WorkClaim_IsExpired claim_A late \<and>
   fst (Claim late ''A'' claim_A_late store_AB) = None \<and>
   \<not> listed ''A'' claim_A (snd (Claim late ''A'' claim_A_late store_AB)) \<and>
   fst (Unregister ''A'' store_AB) = None \<and>
   \<not> listed ''A'' claim_A (snd (Unregister ''A'' store_AB)) \<and>
   fst (Load (\<lambda>line. None) None store_AB) = None \<and>
   \<not> listed ''A'' claim_A (snd (Load (\<lambda>line. None) None store_AB)) \<and>
   WorkClaim_IsExpired old_claim (61 * Minute) \<and>
   GetClaimHolder (61 * Minute) ''bv-new'' [(''C'', agent_C)] = Some agent_C \<and>
   old_claim \<in> set (elems (ClaimedWork agent_C))"
proof -
  have c: "Claim late ''A'' claim_A_late store_AB =
     (None, [(''A'', agent_A\<lparr>ClaimedWork := Some [claim_A_late], LastSeen := late\<rparr>),
             (''B'', agent_B)])"
    by (simp add: Claim_def store_AB_eq claim_A_late_def late_eq example_defs validate_defs
        agent_B_def holds_unexpired_def keep_def append_slice_def Let_def)
  have u: "Unregister ''A'' store_AB = (None, [(''B'', agent_B)])"
    by (simp add: Unregister_def store_AB_eq)
  have l: "Load (\<lambda>line. None) None store_AB = (None, [])"
    by (simp add: Load_def)
  have n1: "\<not> listed ''A'' claim_A
     [(''A'', agent_A\<lparr>ClaimedWork := Some [claim_A_late], LastSeen := late\<rparr>), (''B'', agent_B)]"
    by (simp add: listed_def Get_def claim_A_late_def late_eq example_defs)
  have n2: "\<not> listed ''A'' claim_A [(''B'', agent_B)]"
    by (simp add: listed_def Get_def)
  have n3: "\<not> listed ''A'' claim_A []"
    by (simp add: listed_def Get_def)
  have o: "old_claim \<in> set (elems (ClaimedWork agent_C))"
    by (simp add: agent_C_def)
  from listed_claim_A expired_claim_A c u l n1 n2 n3 expired_old_claim holder_agent_C o
  show ?thesis by simp
qed

text \<open>
  C6, amended: a claim is expired when \<open>now\<close> is strictly after its expires-at. The
  results of \<open>GetAllClaims\<close> are exactly the claims of the registry that have not
  expired, and an agent's \<open>ActiveClaims\<close> are exactly its claims that have not expired.
  \<open>GetClaimHolder\<close> decides on unexpired claims only: it returns the first agent in
  iteration order that holds an unexpired claim on the bead, so an agent it returns
  holds one, and it returns nothing exactly when no agent does (the registration it
  returns is the agent's whole record, expired claims included). Expired or not, a
  listed claim is in the registration that \<open>Get\<close> returns and in one that \<open>List\<close>
  returns, and it stays listed across every call that writes the registry except
  \<open>Release\<close> of its bead by its agent, \<open>CleanupExpired\<close> once it has expired,
  \<open>Unregister\<close> of its agent, \<open>Register\<close> under its agent's name with a claim list
  that is not nil, \<open>Claim\<close> by its agent on the same bead, and \<open>Load\<close>. Each of
  these does remove it: a successful \<open>Release\<close>, a \<open>CleanupExpired\<close> after its
  expiry, a successful \<open>Unregister\<close>, a successful \<open>Register\<close> whose list is not nil
  and does not contain it, a successful \<open>Claim\<close> of another claim on the bead, and a
  \<open>Load\<close> with no snapshot file; the registry after \<open>Load\<close> does not depend on the
  registry before.
\<close>

theorem expired_claim_visibility:
  "(WorkClaim_IsExpired c now \<longleftrightarrow> ExpiresAt c < now) \<and>
   (c \<in> set (GetAllClaims now s) \<longleftrightarrow>
      c \<in> set (all_claims s) \<and> \<not> WorkClaim_IsExpired c now) \<and>
   elems (ActiveClaims a now)
     = filter (\<lambda>c'. \<not> WorkClaim_IsExpired c' now) (elems (ClaimedWork a)) \<and>
   GetClaimHolder now b s =
     find (\<lambda>r. \<exists>c' \<in> set (elems (ClaimedWork r)). BeadID c' = b \<and> \<not> ExpiresAt c' < now)
       (ListAgents s) \<and>
   (GetClaimHolder now b s = None \<longleftrightarrow>
      \<not> (\<exists>r \<in> set (ListAgents s). \<exists>c' \<in> set (elems (ClaimedWork r)).
            BeadID c' = b \<and> \<not> WorkClaim_IsExpired c' now)) \<and>
   (\<forall>r. GetClaimHolder now b s = Some r \<longrightarrow>
      r \<in> set (ListAgents s) \<and>
      (\<exists>c' \<in> set (elems (ClaimedWork r)). BeadID c' = b \<and> \<not> WorkClaim_IsExpired c' now)) \<and>
   (listed k c s \<longrightarrow>
      (\<exists>r. Get k s = Some r \<and> c \<in> set (elems (ClaimedWork r))) \<and>
      (\<exists>r \<in> set (ListAgents s). c \<in> set (elems (ClaimedWork r)))) \<and>
   (listed k c s \<and> \<not> call_may_remove now k c call \<longrightarrow>
      listed k c (snd (apply_call now call s))) \<and>
   (fst (Release now k (BeadID c) s) = None \<longrightarrow>
      \<not> listed k c (snd (Release now k (BeadID c) s))) \<and>
   (WorkClaim_IsExpired c now \<longrightarrow> \<not> listed k c (CleanupExpired now s)) \<and>
   (fst (Unregister k s) = None \<longrightarrow> \<not> listed k c (snd (Unregister k s))) \<and>
   (fst (Register now agent s) = None \<and> Name agent = k \<and> ClaimedWork agent \<noteq> None \<and>
    c \<notin> set (elems (ClaimedWork agent)) \<longrightarrow>
      \<not> listed k c (snd (Register now agent s))) \<and>
   (fst (Claim now k claim s) = None \<and> BeadID claim = BeadID c \<and> claim \<noteq> c \<longrightarrow>
      \<not> listed k c (snd (Claim now k claim s))) \<and>
   \<not> listed k c (snd (Load unmarshal None s)) \<and>
   Load unmarshal snap s = Load unmarshal snap []"
proof (intro conjI impI allI)
  show "WorkClaim_IsExpired c now \<longleftrightarrow> ExpiresAt c < now"
    by (simp add: WorkClaim_IsExpired_def)
next
  show "c \<in> set (GetAllClaims now s) \<longleftrightarrow>
      c \<in> set (all_claims s) \<and> \<not> WorkClaim_IsExpired c now"
    by (rule GetAllClaims_iff)
next
  show "elems (ActiveClaims a now)
     = filter (\<lambda>c'. \<not> WorkClaim_IsExpired c' now) (elems (ClaimedWork a))"
    by (simp add: ActiveClaims_def)
next
  show "GetClaimHolder now b s =
     find (\<lambda>r. \<exists>c' \<in> set (elems (ClaimedWork r)). BeadID c' = b \<and> \<not> ExpiresAt c' < now)
       (ListAgents s)"
    by (rule GetClaimHolder_first)
next
  show "GetClaimHolder now b s = None \<longleftrightarrow>
      \<not> (\<exists>r \<in> set (ListAgents s). \<exists>c' \<in> set (elems (ClaimedWork r)).
            BeadID c' = b \<and> \<not> WorkClaim_IsExpired c' now)"
    by (rule GetClaimHolder_None_iff)
next
  fix r assume "GetClaimHolder now b s = Some r"
  from GetClaimHolder_Some [OF this]
  show "r \<in> set (ListAgents s)"
    and "\<exists>c' \<in> set (elems (ClaimedWork r)). BeadID c' = b \<and> \<not> WorkClaim_IsExpired c' now"
    by (simp_all add: holds_unexpired_def)
next
  assume "listed k c s"
  then show "\<exists>r. Get k s = Some r \<and> c \<in> set (elems (ClaimedWork r))"
    by (auto simp: Get_def dest: listedD)
next
  assume "listed k c s"
  then show "\<exists>r \<in> set (ListAgents s). c \<in> set (elems (ClaimedWork r))"
    by (rule listed_ListAgents)
next
  assume "listed k c s \<and> \<not> call_may_remove now k c call"
  then show "listed k c (snd (apply_call now call s))" using listed_stays_call by blast
next
  assume "fst (Release now k (BeadID c) s) = None"
  then show "\<not> listed k c (snd (Release now k (BeadID c) s))" by (rule not_listed_Release)
next
  assume "WorkClaim_IsExpired c now"
  then show "\<not> listed k c (CleanupExpired now s)" by (rule not_listed_CleanupExpired)
next
  assume "fst (Unregister k s) = None"
  then show "\<not> listed k c (snd (Unregister k s))" by (rule not_listed_Unregister)
next
  assume "fst (Register now agent s) = None \<and> Name agent = k \<and> ClaimedWork agent \<noteq> None \<and>
    c \<notin> set (elems (ClaimedWork agent))"
  then show "\<not> listed k c (snd (Register now agent s))" using not_listed_Register by blast
next
  assume "fst (Claim now k claim s) = None \<and> BeadID claim = BeadID c \<and> claim \<noteq> c"
  then show "\<not> listed k c (snd (Claim now k claim s))" using not_listed_Claim by blast
next
  show "\<not> listed k c (snd (Load unmarshal None s))" by (rule not_listed_Load_missing)
next
  show "Load unmarshal snap s = Load unmarshal snap []" by (rule Load_replaces)
qed

text \<open>
  The amended C6 for the claim of \<open>A\<close> on \<open>bv-1\<close>, after its expiry: no getter of
  unexpired claims shows it, \<open>Get\<close> and \<open>List\<close> do, a heartbeat of \<open>A\<close> keeps it, and
  each of the removing calls removes it; and for \<open>C\<close>, the holder of \<open>bv-new\<close>.
\<close>

theorem expired_claim_visibility_witness:
  "WorkClaim_IsExpired claim_A late \<and> ExpiresAt claim_A < late \<and>
   claim_A \<in> set (all_claims store_AB) \<and> claim_A \<notin> set (GetAllClaims late store_AB) \<and>
   elems (ActiveClaims (agent_A\<lparr>ClaimedWork := Some [claim_A]\<rparr>) late) = [] \<and>
   GetClaimHolder late ''bv-1'' store_AB = None \<and>
   GetClaimHolder (61 * Minute) ''bv-new'' [(''C'', agent_C)] = Some agent_C \<and>
   agent_C \<in> set (ListAgents [(''C'', agent_C)]) \<and>
   (\<exists>c' \<in> set (elems (ClaimedWork agent_C)).
      BeadID c' = ''bv-new'' \<and> \<not> WorkClaim_IsExpired c' (61 * Minute)) \<and>
   listed ''A'' claim_A store_AB \<and>
   (\<exists>r. Get ''A'' store_AB = Some r \<and> claim_A \<in> set (elems (ClaimedWork r))) \<and>
   (\<exists>r \<in> set (ListAgents store_AB). claim_A \<in> set (elems (ClaimedWork r))) \<and>
   \<not> call_may_remove late ''A'' claim_A (Mutation (OpHeartbeat ''A'')) \<and>
   listed ''A'' claim_A (snd (apply_call late (Mutation (OpHeartbeat ''A'')) store_AB)) \<and>
   fst (Release late ''A'' (BeadID claim_A) store_AB) = None \<and>
   \<not> listed ''A'' claim_A (snd (Release late ''A'' (BeadID claim_A) store_AB)) \<and>
   \<not> listed ''A'' claim_A (CleanupExpired late store_AB) \<and>
   fst (Unregister ''A'' store_AB) = None \<and>
   \<not> listed ''A'' claim_A (snd (Unregister ''A'' store_AB)) \<and>
   fst (Register late agent_A_again store_AB) = None \<and> Name agent_A_again = ''A'' \<and>
   ClaimedWork agent_A_again \<noteq> None \<and> claim_A \<notin> set (elems (ClaimedWork agent_A_again)) \<and>
   \<not> listed ''A'' claim_A (snd (Register late agent_A_again store_AB)) \<and>
   fst (Claim late ''A'' claim_A_late store_AB) = None \<and>
   BeadID claim_A_late = BeadID claim_A \<and> claim_A_late \<noteq> claim_A \<and>
   \<not> listed ''A'' claim_A (snd (Claim late ''A'' claim_A_late store_AB)) \<and>
   \<not> listed ''A'' claim_A (snd (Load (\<lambda>line. None) None store_AB))"
proof -
  note T = expired_claim_visibility [where c = claim_A and now = late and s = store_AB
      and a = "agent_A\<lparr>ClaimedWork := Some [claim_A]\<rparr>" and b = "''bv-1''" and k = "''A''"
      and call = "Mutation (OpHeartbeat ''A'')" and agent = agent_A_again
      and claim = claim_A_late and unmarshal = "\<lambda>line. None" and snap = None]
  note U = expired_claim_visibility [where c = live_claim and now = "61 * Minute"
      and s = "[(''C'', agent_C)]" and a = agent_C and b = "''bv-new''" and k = "''C''"
      and call = "Mutation (OpHeartbeat ''C'')" and agent = agent_C
      and claim = live_claim and unmarshal = "\<lambda>line. None" and snap = None]
  have e: "WorkClaim_IsExpired claim_A late" by (rule expired_claim_A)
  have ac: "claim_A \<in> set (all_claims store_AB)"
    by (simp add: all_claims_def store_AB_eq)
  have l: "listed ''A'' claim_A store_AB" by (rule listed_claim_A)
  have m: "\<not> call_may_remove late ''A'' claim_A (Mutation (OpHeartbeat ''A''))" by simp
  have r: "fst (Release late ''A'' (BeadID claim_A) store_AB) = None"
    by (simp add: Release_def store_AB_eq Let_def)
  have u: "fst (Unregister ''A'' store_AB) = None"
    by (simp add: Unregister_def store_AB_eq)
  have g: "fst (Register late agent_A_again store_AB) = None"
    by (simp add: Register_def store_AB_eq agent_A_again_def example_defs validate_defs Let_def)
  have gn: "Name agent_A_again = ''A''" "ClaimedWork agent_A_again \<noteq> None"
    "claim_A \<notin> set (elems (ClaimedWork agent_A_again))"
    by (simp_all add: agent_A_again_def example_defs)
  have c: "fst (Claim late ''A'' claim_A_late store_AB) = None"
    by (simp add: Claim_def store_AB_eq claim_A_late_def late_eq example_defs validate_defs
        agent_B_def holds_unexpired_def Let_def)
  have cn: "BeadID claim_A_late = BeadID claim_A" "claim_A_late \<noteq> claim_A"
    by (simp_all add: claim_A_late_def late_eq example_defs)
  have h: "GetClaimHolder (61 * Minute) ''bv-new'' [(''C'', agent_C)] = Some agent_C"
    by (rule holder_agent_C)
  from T e have 1: "ExpiresAt claim_A < late" by blast
  from T e have 2: "claim_A \<notin> set (GetAllClaims late store_AB)" by blast
  from T e have 3: "elems (ActiveClaims (agent_A\<lparr>ClaimedWork := Some [claim_A]\<rparr>) late) = []"
    by simp
  have "\<not> (\<exists>r \<in> set (ListAgents store_AB). \<exists>c' \<in> set (elems (ClaimedWork r)).
            BeadID c' = ''bv-1'' \<and> \<not> WorkClaim_IsExpired c' late)"
    using e by (simp add: ListAgents_def store_AB_eq agent_B_def example_defs)
  with T have 4: "GetClaimHolder late ''bv-1'' store_AB = None" by blast
  from U h have 5: "agent_C \<in> set (ListAgents [(''C'', agent_C)])"
    and 6: "\<exists>c' \<in> set (elems (ClaimedWork agent_C)).
      BeadID c' = ''bv-new'' \<and> \<not> WorkClaim_IsExpired c' (61 * Minute)"
    by blast+
  from T l have 7: "\<exists>r. Get ''A'' store_AB = Some r \<and> claim_A \<in> set (elems (ClaimedWork r))"
    and 8: "\<exists>r \<in> set (ListAgents store_AB). claim_A \<in> set (elems (ClaimedWork r))"
    by blast+
  from T l m have 9: "listed ''A'' claim_A (snd (apply_call late (Mutation (OpHeartbeat ''A'')) store_AB))"
    by blast
  from T r have 10: "\<not> listed ''A'' claim_A (snd (Release late ''A'' (BeadID claim_A) store_AB))"
    by blast
  from T e have 11: "\<not> listed ''A'' claim_A (CleanupExpired late store_AB)" by blast
  from T u have 12: "\<not> listed ''A'' claim_A (snd (Unregister ''A'' store_AB))" by blast
  from T g gn have 13: "\<not> listed ''A'' claim_A (snd (Register late agent_A_again store_AB))"
    by blast
  from T c cn have 14: "\<not> listed ''A'' claim_A (snd (Claim late ''A'' claim_A_late store_AB))"
    by blast
  from T have 15: "\<not> listed ''A'' claim_A (snd (Load (\<lambda>line. None) None store_AB))" by blast
  show ?thesis
    using e 1 ac 2 3 4 h 5 6 l 7 8 m 9 r 10 11 u 12 g gn 13 c cn 14 15
    by (intro conjI)
qed

subsection \<open>File conflicts\<close>

lemmas hint_defs = hint_1_def hint_2_def hint_B_def NewFileHint_def

lemma store_two_hints_eq:
  "store_two_hints = [(''A'', agent_A\<lparr>FileHints := Some [hint_1, hint_2]\<rparr>)]"
  by (simp add: store_two_hints_def Register_def AddFileHint_def validate_defs example_defs
      append_slice_def)

lemma store_shared_file_eq:
  "store_shared_file = [(''A'', agent_A\<lparr>FileHints := Some [hint_1]\<rparr>),
                        (''B'', agent_B\<lparr>FileHints := Some [hint_B]\<rparr>)]"
  by (simp add: store_shared_file_def Register_def AddFileHint_def validate_defs example_defs
      agent_B_def append_slice_def)

lemmas conflict_defs =
  GetFileConflicts_def note_agent_def note_hint_def append_at_def lookup_list_def
  IsActive_def Since_def Sub_def DefaultInactivityThreshold_def minDuration_def maxDuration_def
  FileHint_IsExpired_def Let_def

text \<open>
  C4: the code reports a conflict on a pattern as soon as the active agents hold two
  unexpired hints on it, whoever holds them. One active agent with two unexpired
  hints on \<open>main.go\<close> gets a conflict record that lists it twice, where C4 says that no
  conflict is reported.
\<close>

theorem GetFileConflicts_single_agent:
  "reachable 100 store_two_hints \<and>
   ListAgents store_two_hints = [agent_A\<lparr>FileHints := Some [hint_1, hint_2]\<rparr>] \<and>
   GetFileConflicts 100 store_two_hints =
     [\<lparr>File = ''main.go'', Agents = [''A'', ''A''], BeadIDs = [''bv-1'', ''bv-2''],
       Resolution = []\<rparr>]"
proof -
  have "reachable 100 store_two_hints"
    unfolding store_two_hints_def by (intro reachable.step reachable.init)
  moreover have "GetFileConflicts 100 store_two_hints =
     [\<lparr>File = ''main.go'', Agents = [''A'', ''A''], BeadIDs = [''bv-1'', ''bv-2''],
       Resolution = []\<rparr>]"
    by (simp add: store_two_hints_eq conflict_defs hint_defs example_defs)
  ultimately show ?thesis by (simp add: store_two_hints_eq ListAgents_def)
qed

lemma GetFileConflicts_two_agents:
  "GetFileConflicts 100 store_shared_file =
     [\<lparr>File = ''main.go'', Agents = [''A'', ''B''], BeadIDs = [''bv-1'', ''bv-2''],
       Resolution = []\<rparr>]"
  by (simp add: store_shared_file_eq conflict_defs hint_defs example_defs agent_B_def)

lemma GetFileConflicts_one_expired:
  "GetFileConflicts 300
     [(''A'', agent_A\<lparr>FileHints := Some [hint_1]\<rparr>),
      (''B'', agent_B\<lparr>FileHints := Some [hint_B\<lparr>HintExpiresAt := 200\<rparr>]\<rparr>)] = []"
  by (simp add: conflict_defs hint_defs example_defs agent_B_def)

lemma lookup_list_append_at:
  "lookup_list (append_at k v m) p = (if p = k then lookup_list m k @ [v] else lookup_list m p)"
  by (simp add: lookup_list_def append_at_def update_conv')

lemma distinct_append_at: "distinct (map fst m) \<Longrightarrow> distinct (map fst (append_at k v m))"
  by (simp add: append_at_def distinct_update)

lemma fst_note_hint:
  "fst (note_hint now n h acc) =
     (if FileHint_IsExpired h now then fst acc else append_at (Pattern h) n (fst acc))"
  by (simp add: note_hint_def Let_def)

lemma fold_note_hint_length:
  "length (lookup_list (fst (fold (note_hint now n) hs acc)) p) =
     length (lookup_list (fst acc) p) +
     length (filter (\<lambda>h. Pattern h = p \<and> \<not> FileHint_IsExpired h now) hs)"
  by (induction hs arbitrary: acc) (auto simp: fst_note_hint lookup_list_append_at)

lemma fold_note_hint_distinct:
  "distinct (map fst (fst acc)) \<Longrightarrow> distinct (map fst (fst (fold (note_hint now n) hs acc)))"
  by (induction hs arbitrary: acc) (auto simp: fst_note_hint distinct_append_at)

lemma note_agent_length:
  "length (lookup_list (fst (note_agent now a acc)) p) =
     length (lookup_list (fst acc) p) +
     length (if IsActive a now DefaultInactivityThreshold
             then filter (\<lambda>h. Pattern h = p \<and> \<not> FileHint_IsExpired h now) (elems (FileHints a))
             else [])"
  by (simp add: note_agent_def fold_note_hint_length)

lemma fold_note_agent_length:
  "length (lookup_list (fst (fold (\<lambda>(k, agent). note_agent now agent) s acc)) p) =
     length (lookup_list (fst acc) p) + length (active_hints_on now p s)"
proof (induction s arbitrary: acc)
  case Nil
  show ?case by (simp add: active_hints_on_def)
next
  case (Cons x s)
  obtain k a where x: "x = (k, a)" by (cases x)
  have "length (lookup_list (fst (fold (\<lambda>(k, agent). note_agent now agent) (x # s) acc)) p) =
        length (lookup_list (fst (note_agent now a acc)) p) + length (active_hints_on now p s)"
    unfolding x by (simp add: Cons.IH)
  also have "\<dots> = length (lookup_list (fst acc) p) + length (active_hints_on now p (x # s))"
    unfolding x note_agent_length by (simp add: active_hints_on_def)
  finally show ?case .
qed

lemma fold_note_agent_distinct:
  "distinct (map fst (fst acc)) \<Longrightarrow>
   distinct (map fst (fst (fold (\<lambda>(k, agent). note_agent now agent) s acc)))"
proof (induction s arbitrary: acc)
  case Nil
  then show ?case by simp
next
  case (Cons x s)
  obtain k a where x: "x = (k, a)" by (cases x)
  from Cons.prems have "distinct (map fst (fst (note_agent now a acc)))"
    by (simp add: note_agent_def fold_note_hint_distinct)
  then show ?case
    unfolding x by (simp add: Cons.IH)
qed

lemma lookup_list_longer:
  "distinct (map fst m) \<Longrightarrow>
   (\<exists>vs. (p, vs) \<in> set m \<and> 1 < length vs) \<longleftrightarrow> 1 < length (lookup_list m p)"
proof -
  assume d: "distinct (map fst m)"
  have "(p, vs) \<in> set m \<longleftrightarrow> map_of m p = Some vs" for vs
    using d by (auto dest: map_of_SomeD)
  then show ?thesis
    by (auto simp: lookup_list_def split: option.splits)
qed

lemma GetFileConflicts_reports_iff:
  "(\<exists>fc \<in> set (GetFileConflicts now s). File fc = p) \<longleftrightarrow> 2 \<le> length (active_hints_on now p s)"
proof -
  define acc where "acc = fold (\<lambda>(k, agent). note_agent now agent) s ([], [])"
  have d: "distinct (map fst (fst acc))"
    unfolding acc_def by (rule fold_note_agent_distinct) simp
  have len: "length (lookup_list (fst acc) p) = length (active_hints_on now p s)"
  proof -
    have "lookup_list (fst (([], []) :: multimap \<times> multimap)) p = []"
      by (simp add: lookup_list_def)
    then show ?thesis
      unfolding acc_def fold_note_agent_length by simp
  qed
  have "(\<exists>fc \<in> set (GetFileConflicts now s). File fc = p) \<longleftrightarrow>
        (\<exists>vs. (p, vs) \<in> set (fst acc) \<and> 1 < length vs)"
    unfolding GetFileConflicts_def acc_def [symmetric] Let_def by force
  also have "\<dots> \<longleftrightarrow> 1 < length (lookup_list (fst acc) p)"
    by (rule lookup_list_longer [OF d])
  finally show ?thesis using len by auto
qed

subsection \<open>Load and Save\<close>

lemma update_fresh: "k \<notin> fst ` set al \<Longrightarrow> AList.update k v al = al @ [(k, v)]"
  by (induction al) auto

lemma load_lines_append:
  assumes "\<forall>l \<in> set pre. length l < MaxScanTokenSize \<and> (l = [] \<or> unmarshal l \<noteq> None)"
  shows "\<exists>s'. load_lines unmarshal n (pre @ rest) s = load_lines unmarshal (n + length pre) rest s'"
  using assms
proof (induction pre arbitrary: n s)
  case Nil
  show ?case by auto
next
  case (Cons l pre)
  then have l: "length l < MaxScanTokenSize" "l = [] \<or> unmarshal l \<noteq> None"
    and pre: "\<forall>l \<in> set pre. length l < MaxScanTokenSize \<and> (l = [] \<or> unmarshal l \<noteq> None)"
    by auto
  show ?case
  proof (cases "l = []")
    case True
    with Cons.IH [OF pre, of "n + 1" s] l show ?thesis by (auto simp: MaxScanTokenSize_def)
  next
    case False
    with l obtain a where a: "unmarshal l = Some a" by auto
    with Cons.IH [OF pre, of "n + 1" "AList.update (Name a) a s"] l False show ?thesis
      by auto
  qed
qed

lemma Load_malformed:
  assumes pre: "\<forall>l \<in> set pre. length l < MaxScanTokenSize \<and> (l = [] \<or> unmarshal l \<noteq> None)"
    and bad: "bad \<noteq> []" "unmarshal bad = None" "length bad < MaxScanTokenSize"
  shows "fst (Load unmarshal (Some (pre @ bad # post)) s) = Some (ParseError (length pre + 1))"
proof -
  from load_lines_append [OF pre, of 0 "bad # post" "[]"] obtain s' where
    "load_lines unmarshal 0 (pre @ bad # post) [] = load_lines unmarshal (length pre) (bad # post) s'"
    by auto
  with bad show ?thesis by (simp add: Load_def)
qed

lemma Load_missing: "Load unmarshal None s = (None, [])"
  by (simp add: Load_def)

lemma load_lines_too_long:
  assumes "l \<in> set lines" and "MaxScanTokenSize \<le> length l"
  shows "fst (load_lines unmarshal n lines s) \<noteq> None"
  using assms
  by (induction lines arbitrary: n s) (auto split: option.splits)

lemma save_lines_set:
  "save_lines marshal s = Inr lines \<Longrightarrow> (k, a) \<in> set s \<Longrightarrow> \<exists>l \<in> set lines. marshal a = Some l"
proof (induction s arbitrary: lines)
  case Nil
  then show ?case by simp
next
  case (Cons x s)
  obtain k0 a0 where x: "x = (k0, a0)" by (cases x)
  from Cons.prems(1) obtain l ls where l: "marshal a0 = Some l"
    and ls: "save_lines marshal s = Inr ls" and lines: "lines = l # ls"
    unfolding x by (auto split: option.splits sum.splits)
  show ?case
  proof (cases "(k, a) = (k0, a0)")
    case True
    with l lines show ?thesis by auto
  next
    case False
    with Cons.prems(2) x have "(k, a) \<in> set s" by auto
    from Cons.IH [OF ls this] lines show ?thesis by auto
  qed
qed

lemma save_load_lines:
  assumes codec: "\<forall>(k, a) \<in> set s2. \<exists>line. marshal a = Some line \<and> line \<noteq> [] \<and>
                    length line < MaxScanTokenSize \<and> unmarshal line = Some a"
    and wf: "store_wf (s1 @ s2)"
  shows "\<exists>lines. save_lines marshal s2 = Inr lines \<and> length lines = length s2 \<and>
           load_lines unmarshal n lines s1 = (None, s1 @ s2)"
  using assms
proof (induction s2 arbitrary: s1 n)
  case Nil
  show ?case by simp
next
  case (Cons x s2)
  obtain k a where x: "x = (k, a)" by (cases x)
  from Cons.prems(1) x obtain line where line: "marshal a = Some line" "line \<noteq> []"
    "length line < MaxScanTokenSize" "unmarshal line = Some a"
    by auto
  from Cons.prems(2) x have nm: "Name a = k" and fresh: "k \<notin> fst ` set s1"
    by (auto simp: store_wf_def)
  have wf': "store_wf ((s1 @ [(k, a)]) @ s2)" using Cons.prems(2) x by simp
  have codec': "\<forall>(k, a) \<in> set s2. \<exists>line. marshal a = Some line \<and> line \<noteq> [] \<and>
                    length line < MaxScanTokenSize \<and> unmarshal line = Some a"
    using Cons.prems(1) by simp
  from Cons.IH [OF codec' wf', of "n + 1"] obtain lines where
    lines: "save_lines marshal s2 = Inr lines" "length lines = length s2"
    "load_lines unmarshal (n + 1) lines (s1 @ [(k, a)]) = (None, (s1 @ [(k, a)]) @ s2)"
    by blast
  have "save_lines marshal (x # s2) = Inr (line # lines)"
    using line lines x by simp
  moreover have "load_lines unmarshal n (line # lines) s1 = (None, s1 @ x # s2)"
    using line lines x nm fresh by (simp add: update_fresh)
  ultimately show ?case using lines(2) by auto
qed

text \<open>
  Save, then Load into any store, gives back the registry itself, for a registry in
  which every record is written by the encoder as a line that is not empty, fits the
  scanner and is read back by the decoder as the same record.
\<close>

lemma Save_Load_roundtrip:
  assumes wf: "store_wf s"
    and codec: "\<forall>(k, a) \<in> set s. \<exists>line. marshal a = Some line \<and> line \<noteq> [] \<and>
                    length line < MaxScanTokenSize \<and> unmarshal line = Some a"
  shows "\<exists>lines. Save marshal s file = (None, Some lines) \<and> length lines = length s \<and>
           Load unmarshal (Some lines) s0 = (None, s)"
proof -
  from wf have "store_wf ([] @ s)" by simp
  from save_load_lines [OF codec this, of 0] show ?thesis
    by (auto simp: Save_def Load_def)
qed

lemma length_long_name: "length long_name = 70000"
  unfolding long_name_def by (rule length_replicate)

lemma length_garbage_line: "length garbage_line = 70000"
  unfolding garbage_line_def by (rule length_replicate)

text \<open>
  C8: \<open>Load\<close> with no file at the path succeeds and leaves the empty registry, and a
  malformed record that the scanner delivers ends \<open>Load\<close> with the parse error naming
  its line (\<open>Load_malformed\<close>). But the scanner does not deliver a line of 64 KiB or
  more: on a file whose only line has 70000 characters, \<open>Load\<close> fails with the read
  error, which names no line, whatever the decoder makes of the line.
\<close>

theorem Load_long_line:
  "Load unmarshal None s = (None, []) \<and>
   Load unmarshal (Some [garbage_line]) s = (Some ReadError, [])"
  by (simp add: Load_def MaxScanTokenSize_def length_garbage_line)

text \<open>
  C5: a registry that \<open>Save\<close> writes is not always one that \<open>Load\<close> reads. When some
  record is written as a line of 64 KiB or more, \<open>Save\<close> succeeds and \<open>Load\<close> of the
  file fails, whatever the decoder. (\<open>Save_Load_roundtrip\<close> is the round trip for
  registries whose lines fit the scanner.)
\<close>

theorem Save_Load_long_record:
  assumes "Save marshal s file = (None, Some lines)" and "(k, a) \<in> set s"
    and "marshal a = Some line" and "MaxScanTokenSize \<le> length line"
  shows "fst (Load unmarshal (Some lines) s0) \<noteq> None"
proof -
  from assms(1) have "save_lines marshal s = Inr lines"
    by (auto simp: Save_def split: sum.splits)
  from save_lines_set [OF this assms(2)] assms(3) have "line \<in> set lines" by auto
  with assms(4) show ?thesis
    by (simp add: Load_def load_lines_too_long)
qed

text \<open>
  C5 at the registry of one agent with a name of 70000 characters, with an encoder
  that writes the name only and a decoder that reads it back: the saved file has one
  line, and loading it fails with the read error.
\<close>

theorem Save_Load_long_record_witness:
  "store_wf [(long_name, agent_long)] \<and>
   Save name_line [(long_name, agent_long)] None = (None, Some [long_name]) \<and>
   (long_name, agent_long) \<in> set [(long_name, agent_long)] \<and>
   name_line agent_long = Some long_name \<and> name_unline long_name = Some agent_long \<and>
   MaxScanTokenSize \<le> length long_name \<and>
   fst (Load name_unline (Some [long_name]) []) \<noteq> None \<and>
   Load name_unline (Some [long_name]) [] = (Some ReadError, [])"
proof -
  have n: "Name agent_long = long_name"
    by (simp add: agent_long_def NewAgentRegistration_def)
  have w: "store_wf [(long_name, agent_long)]" by (simp add: store_wf_def n)
  have s: "Save name_line [(long_name, agent_long)] None = (None, Some [long_name])"
    by (simp add: Save_def name_line_def n)
  have m: "(long_name, agent_long) \<in> set [(long_name, agent_long)]" by simp
  have e: "name_line agent_long = Some long_name" by (simp add: name_line_def n)
  have d: "name_unline long_name = Some agent_long" by (simp add: name_unline_def agent_long_def)
  have l: "MaxScanTokenSize \<le> length long_name"
    by (simp add: MaxScanTokenSize_def length_long_name)
  have r: "Load name_unline (Some [long_name]) [] = (Some ReadError, [])"
    using l by (simp add: Load_def)
  from Save_Load_long_record [OF s m e l, of name_unline "[]"] w s m e d l r
  show ?thesis by blast
qed

subsection \<open>Pointers handed out and taken in\<close>

lemmas memory_defs =
  empty_memory_def NewAgentRegistration_ptr_def new_object_def new_claim_array_def
  new_hint_array_def Register_ptr_def Get_ptr_def Claim_ptr_def registration_of_def
  read_slice_def deref_def view_def view_of_def assign_Status_def assign_claim_def

lemma memory_registered_eq:
  "memory_registered =
     \<lparr>agents = [(''A'', 2)],
      objects = [2 \<mapsto> \<lparr>oName = ''A'', oModel = ''model'', oProgram = ''program'',
                        oStartedAt = 100, oLastSeen = 100, oClaimedWork = SliceAt 0 0,
                        oFileHints = SliceAt 1 0, oStatus = AgentStatusActive,
                        oMetadata = \<lparr>Version = [], SessionID = [], Tags = []\<rparr>\<rparr>],
      claim_arrays = [0 \<mapsto> []], hint_arrays = [1 \<mapsto> []], fresh = 3\<rparr>"
  by (simp add: memory_registered_def memory_defs validate_defs Let_def)

lemma memory_claimed_eq:
  "memory_claimed =
     \<lparr>agents = [(''A'', 2)],
      objects = [2 \<mapsto> \<lparr>oName = ''A'', oModel = ''model'', oProgram = ''program'',
                        oStartedAt = 100, oLastSeen = 100, oClaimedWork = SliceAt 3 1,
                        oFileHints = SliceAt 1 0, oStatus = AgentStatusActive,
                        oMetadata = \<lparr>Version = [], SessionID = [], Tags = []\<rparr>\<rparr>],
      claim_arrays = [0 \<mapsto> [], 3 \<mapsto> [claim_A]], hint_arrays = [1 \<mapsto> []], fresh = 4\<rparr>"
  by (simp add: memory_claimed_def memory_registered_eq memory_defs validate_defs example_defs
      Let_def)

lemma memory_got_eq:
  "Get_ptr ''A'' memory_claimed = (Some 4, memory_got) \<and>
   memory_got =
     \<lparr>agents = [(''A'', 2)],
      objects = [2 \<mapsto> \<lparr>oName = ''A'', oModel = ''model'', oProgram = ''program'',
                        oStartedAt = 100, oLastSeen = 100, oClaimedWork = SliceAt 3 1,
                        oFileHints = SliceAt 1 0, oStatus = AgentStatusActive,
                        oMetadata = \<lparr>Version = [], SessionID = [], Tags = []\<rparr>\<rparr>,
                 4 \<mapsto> \<lparr>oName = ''A'', oModel = ''model'', oProgram = ''program'',
                        oStartedAt = 100, oLastSeen = 100, oClaimedWork = SliceAt 3 1,
                        oFileHints = SliceAt 1 0, oStatus = AgentStatusActive,
                        oMetadata = \<lparr>Version = [], SessionID = [], Tags = []\<rparr>\<rparr>],
      claim_arrays = [0 \<mapsto> [], 3 \<mapsto> [claim_A]], hint_arrays = [1 \<mapsto> []], fresh = 5\<rparr>"
  by (simp add: memory_got_def memory_claimed_eq memory_defs Let_def)

lemma view_memory_got: "view memory_got = store_A"
  by (simp add: memory_got_eq store_A_eq memory_defs example_defs)

text \<open>
  C9: the registration that \<open>Get\<close> returns is a new object, so assigning one of its
  fields changes nothing in the store; but its claim list is the stored slice, on the
  stored array. After \<open>Get("A")\<close> returned the pointer 4, the caller's assignment
  \<open>got.ClaimedWork[0] = c\<close> changes the claim that the store holds for \<open>A\<close>. And the
  pointer given to \<open>Register\<close> (here 2) is the one the store keeps: the caller's
  assignment \<open>agent.Status = "gone"\<close> after the call changes the stored status.
\<close>

theorem returned_copy_shares_claims:
  "Get_ptr ''A'' memory_claimed = (Some 4, memory_got) \<and>
   view memory_claimed = store_A \<and> view memory_got = store_A \<and>
   deref memory_got 4 = Get ''A'' store_A \<and>
   map_option view (assign_Status 4 AgentStatusGone memory_got) = Some store_A \<and>
   map_option view (assign_claim 4 0 claim_other memory_got) =
     Some [(''A'', agent_A\<lparr>ClaimedWork := Some [claim_other]\<rparr>)] \<and>
   map_of (agents memory_registered) ''A'' = Some 2 \<and>
   view memory_registered = [(''A'', agent_A)] \<and>
   map_option view (assign_Status 2 AgentStatusGone memory_registered) =
     Some [(''A'', agent_A\<lparr>Status := AgentStatusGone\<rparr>)]"
proof -
  have 1: "view memory_claimed = store_A"
    by (simp add: memory_claimed_eq store_A_eq memory_defs example_defs)
  have 2: "deref memory_got 4 = Get ''A'' store_A"
    by (simp add: memory_got_eq store_A_eq Get_def memory_defs example_defs)
  have 3: "map_option view (assign_Status 4 AgentStatusGone memory_got) = Some store_A"
    by (simp add: memory_got_eq store_A_eq memory_defs example_defs)
  have 4: "map_option view (assign_claim 4 0 claim_other memory_got) =
     Some [(''A'', agent_A\<lparr>ClaimedWork := Some [claim_other]\<rparr>)]"
    by (simp add: memory_got_eq memory_defs example_defs)
  have 5: "map_of (agents memory_registered) ''A'' = Some 2"
    by (simp add: memory_registered_eq)
  have 6: "view memory_registered = [(''A'', agent_A)]"
    by (simp add: memory_registered_eq memory_defs example_defs)
  have 7: "map_option view (assign_Status 2 AgentStatusGone memory_registered) =
     Some [(''A'', agent_A\<lparr>Status := AgentStatusGone\<rparr>)]"
    by (simp add: memory_registered_eq memory_defs example_defs)
  from memory_got_eq view_memory_got 1 2 3 4 5 6 7 show ?thesis by blast
qed

lemma view_of_Nil [simp]: "view_of d [] = []"
  by (simp add: view_of_def)

lemma view_of_Cons [simp]:
  "view_of d ((k, p) # al) = (case d p of None \<Rightarrow> [] | Some r \<Rightarrow> [(k, r)]) @ view_of d al"
  by (simp add: view_of_def)

lemma view_of_cong:
  "\<forall>p \<in> snd ` set al. d' p = d p \<Longrightarrow> view_of d' al = view_of d al"
  by (induction al) auto

lemma map_of_view_of:
  "\<forall>p \<in> snd ` set al. d p \<noteq> None \<Longrightarrow>
   map_of (view_of d al) k = (case map_of al k of None \<Rightarrow> None | Some p \<Rightarrow> d p)"
  by (induction al) auto

lemma view_of_update:
  assumes "distinct (map snd al)" and "map_of al k = Some p"
    and "\<forall>q \<in> snd ` set al. d q \<noteq> None"
  shows "view_of (d(p \<mapsto> r)) al = AList.update k r (view_of d al)"
proof -
  define d' where "d' = d(p \<mapsto> r)"
  have same: "d' p = Some r" and other: "\<And>q. q \<noteq> p \<Longrightarrow> d' q = d q"
    by (simp_all add: d'_def)
  have "view_of d' al = AList.update k r (view_of d al)"
    using assms
  proof (induction al)
    case Nil
    then show ?case by simp
  next
    case (Cons x al)
    obtain k0 p0 where x: "x = (k0, p0)" by (cases x)
    from Cons.prems(3) x obtain r0 where r0: "d p0 = Some r0" by auto
    show ?case
    proof (cases "k0 = k")
      case True
      with Cons.prems(2) x have p: "p0 = p" by simp
      from Cons.prems(1) x p have "p \<notin> snd ` set al" by auto
      then have "\<forall>q \<in> snd ` set al. d' q = d q" using other by metis
      then have "view_of d' al = view_of d al" by (rule view_of_cong)
      with True p x r0 same show ?thesis by simp
    next
      case False
      with Cons.prems(2) x have look: "map_of al k = Some p" by simp
      then have "(k, p) \<in> set al" by (rule map_of_SomeD)
      then have "p \<in> snd ` set al" by (auto simp: rev_image_eqI)
      with Cons.prems(1) x have ne: "p0 \<noteq> p" by auto
      from Cons.prems(1) have d: "distinct (map snd al)" by simp
      from Cons.prems(3) have t: "\<forall>q \<in> snd ` set al. d q \<noteq> None" by simp
      have "view_of d' al = AList.update k r (view_of d al)"
        by (rule Cons.IH [OF d look t])
      with False x r0 other [OF ne] show ?thesis by simp
    qed
  qed
  then show ?thesis by (simp only: d'_def)
qed

lemma read_slice_other:
  "slice_ok arrays fr r \<Longrightarrow> fr \<le> a \<Longrightarrow> read_slice (arrays(a \<mapsto> xs)) r = read_slice arrays r"
  by (cases r) (auto simp: slice_ok_def read_slice_def)

lemma memory_wf_object:
  assumes "memory_wf m" and "map_of (agents m) k = Some p"
  shows "\<exists>obj. objects m p = Some obj \<and> oName obj = k \<and> p < fresh m \<and>
           slice_ok (claim_arrays m) (fresh m) (oClaimedWork obj) \<and>
           slice_ok (hint_arrays m) (fresh m) (oFileHints obj)"
proof -
  from assms(2) have "(k, p) \<in> set (agents m)" by (rule map_of_SomeD)
  with assms(1) have "object_ok m k p" by (auto simp: memory_wf_def)
  then show ?thesis by (auto simp: object_ok_def split: option.splits)
qed

lemma memory_wf_stored:
  assumes "memory_wf m" and "q \<in> snd ` set (agents m)"
  shows "\<exists>obj. objects m q = Some obj \<and> q < fresh m \<and>
           slice_ok (claim_arrays m) (fresh m) (oClaimedWork obj) \<and>
           slice_ok (hint_arrays m) (fresh m) (oFileHints obj)"
proof -
  from assms(2) obtain k where "(k, q) \<in> set (agents m)" by auto
  with assms(1) have "object_ok m k q" by (auto simp: memory_wf_def)
  then show ?thesis by (auto simp: object_ok_def split: option.splits)
qed

lemma memory_wf_deref: "memory_wf m \<Longrightarrow> \<forall>q \<in> snd ` set (agents m). deref m q \<noteq> None"
  using memory_wf_stored by (fastforce simp: deref_def)

lemma Get_view:
  "memory_wf m \<Longrightarrow> Get k (view m) = (case map_of (agents m) k of None \<Rightarrow> None | Some p \<Rightarrow> deref m p)"
  unfolding Get_def view_def by (rule map_of_view_of) (rule memory_wf_deref)

text \<open>
  In a memory that the store owns, \<open>Get\<close> on pointers leaves the registry as it is, and
  the pointer it returns shows what \<open>Get\<close> on values returns.
\<close>

lemma Get_ptr_refines:
  assumes wf: "memory_wf m"
  shows "view (snd (Get_ptr k m)) = view m \<and>
         (case fst (Get_ptr k m) of None \<Rightarrow> None | Some q \<Rightarrow> deref (snd (Get_ptr k m)) q)
           = Get k (view m)"
proof (cases "map_of (agents m) k")
  case None
  then show ?thesis by (simp add: Get_ptr_def Get_view [OF wf])
next
  case (Some p)
  from memory_wf_object [OF wf Some] obtain obj where obj: "objects m p = Some obj" by blast
  define m' where "m' = m\<lparr>objects := (objects m)(fresh m \<mapsto> obj), fresh := fresh m + 1\<rparr>"
  have g: "Get_ptr k m = (Some (fresh m), m')"
    using Some obj by (simp add: Get_ptr_def new_object_def m'_def)
  have reg: "registration_of m' = registration_of m"
    by (rule ext) (simp add: registration_of_def m'_def)
  have "\<forall>q \<in> snd ` set (agents m). deref m' q = deref m q"
  proof
    fix q assume "q \<in> snd ` set (agents m)"
    from memory_wf_stored [OF wf this] have "q \<noteq> fresh m" by auto
    then show "deref m' q = deref m q" by (simp add: deref_def reg) (simp add: m'_def)
  qed
  then have v: "view m' = view m"
    unfolding view_def using view_of_cong by (simp add: m'_def)
  have "deref m' (fresh m) = deref m p"
    by (simp add: deref_def reg obj) (simp add: m'_def)
  with v g Some show ?thesis by (simp add: Get_view [OF wf])
qed

text \<open>Assigning a field of the registration that \<open>Get\<close> returned does not reach the store.\<close>

lemma Get_ptr_field_independent:
  assumes wf: "memory_wf m" and g: "Get_ptr k m = (Some q, m')"
    and a: "assign_Status q v m' = Some m''"
  shows "view m'' = view m"
proof -
  from g obtain p obj where p: "map_of (agents m) k = Some p" and obj: "objects m p = Some obj"
    and q: "q = fresh m"
    and m': "m' = m\<lparr>objects := (objects m)(fresh m \<mapsto> obj), fresh := fresh m + 1\<rparr>"
    by (auto simp: Get_ptr_def new_object_def split: option.splits)
  from a q m' have m'': "m'' = m'\<lparr>objects := (objects m')(fresh m \<mapsto> obj\<lparr>oStatus := v\<rparr>)\<rparr>"
    by (simp add: assign_Status_def)
  have reg: "registration_of m'' = registration_of m"
    by (rule ext) (simp add: registration_of_def m'' m')
  have "\<forall>q \<in> snd ` set (agents m). deref m'' q = deref m q"
  proof
    fix q assume "q \<in> snd ` set (agents m)"
    from memory_wf_stored [OF wf this] have "q \<noteq> fresh m" by auto
    then show "deref m'' q = deref m q" by (simp add: deref_def reg) (simp add: m'' m')
  qed
  then show ?thesis
    unfolding view_def using view_of_cong by (simp add: m'' m')
qed

text \<open>
  In a memory that the store owns, \<open>Claim\<close> on pointers does to the registry what
  \<open>Claim\<close> on values does, with the same error.
\<close>

lemma Claim_ptr_refines:
  assumes wf: "memory_wf m"
  shows "fst (Claim_ptr now n c m) = fst (Claim now n c (view m)) \<and>
         view (snd (Claim_ptr now n c m)) = snd (Claim now n c (view m))"
proof (cases "WorkClaim_Validate c")
  case (Some e)
  then show ?thesis by (simp add: Claim_ptr_def Claim_def)
next
  case valid: None
  show ?thesis
  proof (cases "map_of (agents m) n")
    case None
    with valid Get_view [OF wf, of n] show ?thesis
      by (simp add: Claim_ptr_def Claim_def Get_def)
  next
    case (Some p)
    from memory_wf_object [OF wf Some] obtain obj where obj: "objects m p = Some obj"
      and pf: "p < fresh m"
      and hs: "slice_ok (hint_arrays m) (fresh m) (oFileHints obj)"
      by blast
    let ?R = "registration_of m obj"
    have look: "map_of (view m) n = Some ?R"
      using Get_view [OF wf, of n] Some obj by (simp add: Get_def deref_def)
    show ?thesis
    proof (cases "find_conflict now n (BeadID c) (view m)")
      case (Some holder)
      with valid \<open>map_of (agents m) n = Some p\<close> obj look show ?thesis
        by (simp add: Claim_ptr_def Claim_def)
    next
      case None
      define new where
        "new = filter (\<lambda>x. BeadID x \<noteq> BeadID c) (elems (ClaimedWork ?R)) @ [c]"
      define obj' where
        "obj' = obj\<lparr>oClaimedWork := SliceAt (fresh m) (length new), oLastSeen := now\<rparr>"
      define m' where
        "m' = m\<lparr>claim_arrays := (claim_arrays m)(fresh m \<mapsto> new), fresh := fresh m + 1,
                 objects := (objects m)(p \<mapsto> obj')\<rparr>"
      define r' where "r' = ?R\<lparr>ClaimedWork := Some new, LastSeen := now\<rparr>"
      have cp: "Claim_ptr now n c m = (None, m')"
        using valid \<open>map_of (agents m) n = Some p\<close> obj None
        by (simp add: Claim_ptr_def new_claim_array_def Let_def m'_def obj'_def new_def
            registration_of_def)
      have cv: "Claim now n c (view m) = (None, AList.update n r' (view m))"
        using valid look None
        by (simp add: Claim_def Let_def r'_def new_def append_slice_def)
      have own: "deref m' p = Some r'"
        by (simp add: deref_def m'_def registration_of_def obj'_def r'_def read_slice_def)
      have others: "deref m' q = deref m q" if q: "q \<in> snd ` set (agents m)" and ne: "q \<noteq> p" for q
      proof -
        from memory_wf_stored [OF wf q] obtain o2 where o2: "objects m q = Some o2"
          and c2: "slice_ok (claim_arrays m) (fresh m) (oClaimedWork o2)"
          by blast
        have "read_slice ((claim_arrays m)(fresh m \<mapsto> new)) (oClaimedWork o2)
                = read_slice (claim_arrays m) (oClaimedWork o2)"
          by (rule read_slice_other [OF c2]) simp
        then have "registration_of m' o2 = registration_of m o2"
          by (simp add: registration_of_def m'_def)
        with o2 ne show ?thesis by (simp add: deref_def) (simp add: m'_def)
      qed
      have "\<forall>q \<in> snd ` set (agents m). deref m' q = ((deref m)(p \<mapsto> r')) q"
        using own others by simp
      then have "view_of (deref m') (agents m) = view_of ((deref m)(p \<mapsto> r')) (agents m)"
        by (rule view_of_cong)
      also have "\<dots> = AList.update n r' (view_of (deref m) (agents m))"
      proof (rule view_of_update)
        show "distinct (map snd (agents m))" using wf by (simp add: memory_wf_def)
        show "map_of (agents m) n = Some p" by fact
        show "\<forall>q \<in> snd ` set (agents m). deref m q \<noteq> None" by (rule memory_wf_deref [OF wf])
      qed
      finally have "view m' = AList.update n r' (view m)"
        by (simp add: view_def m'_def)
      with cp cv show ?thesis by simp
    qed
  qed
qed

lemma view_of_update_key:
  assumes "d' p = Some r" and "\<forall>q \<in> snd ` set al. d' q = d q \<and> d q \<noteq> None"
  shows "view_of d' (AList.update k p al) = AList.update k r (view_of d al)"
  using assms(2)
proof (induction al)
  case Nil
  show ?case using assms(1) by simp
next
  case (Cons x al)
  obtain k0 p0 where x: "x = (k0, p0)" by (cases x)
  from Cons.prems x obtain r0 where r0: "d p0 = Some r0" "d' p0 = Some r0" by auto
  show ?case
  proof (cases "k0 = k")
    case True
    from Cons.prems have "\<forall>q \<in> snd ` set al. d' q = d q" by simp
    then have "view_of d' al = view_of d al" by (rule view_of_cong)
    with True x r0 assms(1) show ?thesis by simp
  next
    case False
    from Cons.prems have "\<forall>q \<in> snd ` set al. d' q = d q \<and> d q \<noteq> None" by simp
    from Cons.IH [OF this] False x r0 show ?thesis by simp
  qed
qed

lemma read_slice_None: "read_slice arrays r = None \<longleftrightarrow> r = NilSlice"
  by (cases r) (auto simp: read_slice_def split: option.splits)

lemma read_slice_NilSlice: "read_slice arrays NilSlice = None"
  by (simp add: read_slice_def)

text \<open>
  In a memory that the store owns, \<open>Register\<close> of a pointer that the store does not
  hold yet does to the registry what \<open>Register\<close> on values does with the registration
  that the pointer shows. (From then on the caller and the store hold the same pointer.)
\<close>

lemma Register_ptr_refines:
  assumes wf: "memory_wf m" and obj: "objects m p = Some agent"
    and new: "p \<notin> snd ` set (agents m)"
  shows "\<exists>m'. Register_ptr now p m = Some (fst (Register now (registration_of m agent) (view m)), m') \<and>
              view m' = snd (Register now (registration_of m agent) (view m))"
proof (cases "AgentRegistration_Validate (registration_of m agent)")
  case (Some e)
  with obj show ?thesis by (simp add: Register_ptr_def Register_def)
next
  case valid: None
  let ?R = "registration_of m agent"
  have nm: "Name ?R = oName agent" by (simp add: registration_of_def)
  define agent1 where "agent1 =
     (case map_of (agents m) (oName agent) of
        None \<Rightarrow> agent
      | Some q \<Rightarrow>
          (case objects m q of
             None \<Rightarrow> agent
           | Some existing \<Rightarrow>
               let a1 = agent\<lparr>oStartedAt := oStartedAt existing\<rparr>;
                   a2 = (if oClaimedWork a1 = NilSlice
                         then a1\<lparr>oClaimedWork := oClaimedWork existing\<rparr> else a1);
                   a3 = (if oFileHints a2 = NilSlice
                         then a2\<lparr>oFileHints := oFileHints existing\<rparr> else a2)
               in a3))"
  define m' where "m' = m\<lparr>objects := (objects m)(p \<mapsto> agent1\<lparr>oLastSeen := now\<rparr>),
                          agents := AList.update (oName agent) p (agents m)\<rparr>"
  define R1 where "R1 =
     (case map_of (view m) (Name ?R) of
        None \<Rightarrow> ?R
      | Some existing \<Rightarrow>
          let a1 = ?R\<lparr>StartedAt := StartedAt existing\<rparr>;
              a2 = (if ClaimedWork a1 = None
                    then a1\<lparr>ClaimedWork := ClaimedWork existing\<rparr> else a1);
              a3 = (if FileHints a2 = None
                    then a2\<lparr>FileHints := FileHints existing\<rparr> else a2)
          in a3)"
  have rp: "Register_ptr now p m = Some (None, m')"
    using obj valid by (simp add: Register_ptr_def m'_def agent1_def)
  have rv: "Register now ?R (view m) = (None, AList.update (oName agent) (R1\<lparr>LastSeen := now\<rparr>) (view m))"
    using valid by (simp add: Register_def R1_def nm)
  have reg: "registration_of m' = registration_of m"
    by (rule ext) (simp add: registration_of_def m'_def)
  have r1: "registration_of m agent1 = R1"
  proof (cases "map_of (agents m) (oName agent)")
    case None
    with Get_view [OF wf, of "oName agent"] show ?thesis
      by (simp add: agent1_def R1_def nm Get_def)
  next
    case (Some q)
    from memory_wf_object [OF wf Some] obtain existing where ex: "objects m q = Some existing"
      by blast
    with Get_view [OF wf, of "oName agent"] Some
    have v: "map_of (view m) (oName agent) = Some (registration_of m existing)"
      by (simp add: Get_def deref_def)
    have c: "ClaimedWork ?R = None \<longleftrightarrow> oClaimedWork agent = NilSlice"
      and h: "FileHints ?R = None \<longleftrightarrow> oFileHints agent = NilSlice"
      by (simp_all add: registration_of_def read_slice_None)
    show ?thesis
    proof (cases "oClaimedWork agent = NilSlice")
      case cn: True
      show ?thesis
      proof (cases "oFileHints agent = NilSlice")
        case True
        with cn c h Some ex v show ?thesis
          by (simp add: agent1_def R1_def nm Let_def)
             (simp add: registration_of_def read_slice_NilSlice)
      next
        case False
        with cn c h Some ex v show ?thesis
          by (simp add: agent1_def R1_def nm Let_def)
             (simp add: registration_of_def read_slice_NilSlice read_slice_None)
      qed
    next
      case cn: False
      show ?thesis
      proof (cases "oFileHints agent = NilSlice")
        case True
        with cn c h Some ex v show ?thesis
          by (simp add: agent1_def R1_def nm Let_def)
             (simp add: registration_of_def read_slice_NilSlice read_slice_None)
      next
        case False
        with cn c h Some ex v show ?thesis
          by (simp add: agent1_def R1_def nm Let_def)
             (simp add: registration_of_def read_slice_NilSlice read_slice_None)
      qed
    qed
  qed
  have "registration_of m (agent1\<lparr>oLastSeen := now\<rparr>) = (registration_of m agent1)\<lparr>LastSeen := now\<rparr>"
    by (simp add: registration_of_def)
  then have own: "deref m' p = Some (R1\<lparr>LastSeen := now\<rparr>)"
    unfolding r1 by (simp add: deref_def reg) (simp add: m'_def)
  have others: "\<forall>q \<in> snd ` set (agents m). deref m' q = deref m q \<and> deref m q \<noteq> None"
  proof
    fix q assume q: "q \<in> snd ` set (agents m)"
    with new have "q \<noteq> p" by auto
    then have "deref m' q = deref m q" by (simp add: deref_def reg) (simp add: m'_def)
    moreover from memory_wf_deref [OF wf] q have "deref m q \<noteq> None" by blast
    ultimately show "deref m' q = deref m q \<and> deref m q \<noteq> None" by blast
  qed
  have "view_of (deref m') (AList.update (oName agent) p (agents m))
          = AList.update (oName agent) (R1\<lparr>LastSeen := now\<rparr>) (view_of (deref m) (agents m))"
    by (rule view_of_update_key [OF own others])
  then have "view m' = AList.update (oName agent) (R1\<lparr>LastSeen := now\<rparr>) (view m)"
    by (simp add: view_def m'_def)
  with rp rv show ?thesis by simp
qed

lemma memory_wf_examples: "memory_wf memory_registered" "memory_wf memory_claimed"
  by (simp_all add: memory_wf_def object_ok_def slice_ok_def memory_registered_eq memory_claimed_eq)

end
